theory Spec2Isabelle
  imports Complex_Main "HOL-Library.Multiset"
begin

section \<open>Word and emotion frequency aggregation (calc\_words\_frequency.py)\<close>

text \<open>
  A shallow embedding of \<^verbatim>\<open>processors/calc_words_frequency.py\<close>.  Python integers are
  \<^typ>\<open>int\<close>, Python dictionaries are association lists in insertion order (the order
  \<^verbatim>\<open>dict.items()\<close> iterates in), exceptions are values of \<open>py_error\<close>, and the mutable
  objects the functions share (\<^verbatim>\<open>words_dict\<close>, \<^verbatim>\<open>stats\<close>, the log) are fields of one
  state record that every function takes and returns.
\<close>

subsection \<open>Python values\<close>

datatype py_error =
    KeyError
  | TypeError
  | AttributeError
  | ZeroDivisionError
  | IndexError
  | StopIteration
  | SystemExit int
  | ParseError
  | OverflowError

type_synonym 'v pydict = "(string \<times> 'v) list"

text \<open>\<^verbatim>\<open>d[k] = v\<close>: an existing key keeps its position, a new key goes last.\<close>

fun dict_set :: "string \<Rightarrow> 'v \<Rightarrow> 'v pydict \<Rightarrow> 'v pydict" where
  "dict_set k v [] = [(k, v)]"
| "dict_set k v (p # ps) = (if fst p = k then (k, v) # ps else p # dict_set k v ps)"

text \<open>A \<^verbatim>\<open>for\<close> loop whose body may raise: the first exception ends the loop.\<close>

fun for_each :: "('a \<Rightarrow> 's \<Rightarrow> py_error + 's) \<Rightarrow> 'a list \<Rightarrow> 's \<Rightarrow> py_error + 's" where
  "for_each body [] s = Inr s"
| "for_each body (x # xs) s =
     (case body x s of Inl e \<Rightarrow> Inl e | Inr s' \<Rightarrow> for_each body xs s')"

text \<open>
  A lazy iterator (a file reader, a generator) is the list of the items it yields and the
  exception, if any, that ends the iteration.
\<close>

type_synonym 'a py_iter = "'a list \<times> py_error option"

text \<open>
  \<^verbatim>\<open>sorted(items, key=lambda item: item[1], reverse=True)\<close>.  Python's sort is stable, and
  with \<^verbatim>\<open>reverse=True\<close> it reverses the list, sorts it stably in ascending order and reverses
  the result, so items with equal keys keep the order they had in the input.
\<close>

definition sorted_reverse :: "int pydict \<Rightarrow> int pydict" where
  "sorted_reverse items = rev (sort_key snd (rev items))"

text \<open>\<^verbatim>\<open>re.split('-|\.', basename)\<close>: one more part than there are separators.\<close>

fun re_split :: "string \<Rightarrow> string list" where
  "re_split [] = [[]]"
| "re_split (c # cs) =
     (if c = CHR ''-'' \<or> c = CHR ''.'' then [] # re_split cs
      else (case re_split cs of [] \<Rightarrow> [[c]] | p # ps \<Rightarrow> (c # p) # ps))"

subsection \<open>True division of integers\<close>

text \<open>
  \<^verbatim>\<open>a / b\<close> on two integers raises \<^verbatim>\<open>ZeroDivisionError\<close> for \<^verbatim>\<open>b == 0\<close> and otherwise returns
  the double nearest to the quotient, ties going to the even significand; when that rounding
  leaves the range of the doubles it raises \<^verbatim>\<open>OverflowError\<close>.  A double is represented by
  its value, a rational.
\<close>

text \<open>\<^verbatim>\<open>n.bit_length()\<close> for a non-negative integer.\<close>

function bit_length :: "int \<Rightarrow> int" where
  "bit_length n = (if n \<le> 0 then 0 else 1 + bit_length (n div 2))"
  by pat_completeness auto
termination
  by (relation "measure nat") auto

declare bit_length.simps [simp del]

definition pow2 :: "int \<Rightarrow> rat" where
  "pow2 e = (if 0 \<le> e then 2 ^ nat e else 1 / 2 ^ nat (- e))"

text \<open>The integer nearest to \<open>num / den\<close> for a positive \<open>den\<close>, a tie going to the even one.\<close>

definition round_half_even :: "int \<Rightarrow> int \<Rightarrow> int" where
  "round_half_even num den =
     (let f = num div den; r = 2 * (num mod den)
      in if r < den then f else if den < r then f + 1 else if even f then f else f + 1)"

text \<open>
  The exponent of the quotient \<open>a / b\<close>, for positive \<open>a\<close> and \<open>b\<close>: the quotient lies
  between that power of two and the next.
\<close>

definition quotient_exponent :: "int \<Rightarrow> int \<Rightarrow> int" where
  "quotient_exponent a b =
     (let d = bit_length a - bit_length b
      in if pow2 d \<le> of_int a / of_int b then d else d - 1)"

text \<open>
  The exponent of the unit in the last place of the double for \<open>a / b\<close>: 52 below the
  exponent of the quotient, and never below that of the smallest subnormal number.
\<close>

definition double_exponent :: "int \<Rightarrow> int \<Rightarrow> int" where
  "double_exponent a b = max (quotient_exponent a b - 52) (- 1074)"

text \<open>The quotient of a non-negative \<open>a\<close> and a positive \<open>b\<close>, rounded to that unit.\<close>

definition nearest_double :: "int \<Rightarrow> int \<Rightarrow> rat" where
  "nearest_double a b =
     (let sh = double_exponent a b;
          m = (if 0 \<le> sh then round_half_even a (b * 2 ^ nat sh)
               else round_half_even (a * 2 ^ nat (- sh)) b)
      in of_int m * pow2 sh)"

text \<open>
  The rounding leaves the range exactly when the quotient is at least half way from the
  largest double, \<open>2 ^ 1024 - 2 ^ 971\<close>, to \<open>2 ^ 1024\<close>.
\<close>

definition py_truediv :: "int \<Rightarrow> int \<Rightarrow> py_error + rat" where
  "py_truediv a b =
     (if b = 0 then Inl ZeroDivisionError
      else if 2 ^ 1024 - 2 ^ 970 \<le> \<bar>of_int a / of_int b :: rat\<bar> then Inl OverflowError
      else Inr (of_int (sgn a * sgn b) * nearest_double \<bar>a\<bar> \<bar>b\<bar>))"

subsection \<open>Constants, inputs and collaborators\<close>

definition NTWEET :: int where
  "NTWEET = 10000"

definition RELEVANT_EMOTIONS :: "string list" where
  "RELEVANT_EMOTIONS =
     [''positive'', ''negative'', ''anger'', ''anticipation'', ''disgust'',
      ''fear'', ''joy'', ''sadness'', ''surprise'', ''trust'']"

text \<open>A post: \<^verbatim>\<open>tweet['full_text']\<close>, \<^verbatim>\<open>str(tweet['user']['id'])\<close> and \<^verbatim>\<open>tweet['lang']\<close>.\<close>

record tweet =
  full_text :: string
  user_id :: string
  lang :: string

text \<open>
  The module \<^verbatim>\<open>emotion_lexicon\<close> is imported by the file but is not part of it; its
  functions are parameters of the embedding.  \<open>getEmotionsOfWord\<close> gives the emotions of a
  word in the order the loop of \<^verbatim>\<open>process_tweet\<close> iterates over them.
\<close>

record 'e lexicon =
  tokenize :: "string \<Rightarrow> string list"
  getEmotionsOfWord :: "string \<Rightarrow> 'e list"
  getEmotionName :: "'e \<Rightarrow> string"

text \<open>
  The world outside the module: \<^verbatim>\<open>os.path.exists\<close>, the two readers of \<^verbatim>\<open>file_utils\<close>
  (each record a dictionary from field names to values) and \<^verbatim>\<open>initEmotionLexicon\<close>, which
  answers \<^verbatim>\<open>False\<close> (\<open>None\<close>) when there is no lexicon for the language.
\<close>

record 'e env =
  path_exists :: "string \<Rightarrow> bool"
  open_jsonobjects_file :: "string \<Rightarrow> (string pydict) py_iter"
  open_csv_file :: "string \<Rightarrow> (string pydict) py_iter"
  initEmotionLexicon :: "string \<Rightarrow> 'e lexicon option"

text \<open>The command line: \<^verbatim>\<open>--n-words\<close>, \<^verbatim>\<open>--users-file\<close> and the options of the host pipeline.\<close>

record args =
  n_words :: int
  users_file :: "string option"
  dry_run :: bool
  output_dir_path :: string

text \<open>
  The mutable objects: \<^verbatim>\<open>words_dict\<close> holds a word-to-count dictionary under each emotion
  key (\<open>wd_emo\<close>) and two integers under the keys \<^verbatim>\<open>'words'\<close> and \<^verbatim>\<open>'tweets'\<close>;
  \<^verbatim>\<open>stats['performance']['input']\<close> holds the same two counters again.  \<open>logged\<close> are the
  messages of \<^verbatim>\<open>utils.log\<close>, \<open>dots\<close> counts the calls of \<^verbatim>\<open>utils.dot\<close>, and \<open>consumed\<close>
  counts the posts taken from the \<^verbatim>\<open>dump\<close> iterator.
\<close>

record state =
  wd_emo :: "(int pydict) pydict"
  wd_words :: int
  wd_tweets :: int
  st_words :: int
  st_tweets :: int
  logged :: "string list"
  dots :: nat
  consumed :: nat

subsection \<open>The user filter: \<^verbatim>\<open>get_valid_users\<close>\<close>

text \<open>What \<^verbatim>\<open>get_valid_users\<close> can return besides \<^verbatim>\<open>None\<close>: a set, or the dictionary \<^verbatim>\<open>{}\<close>.\<close>

datatype py_users = PySet "string set" | PyDict "string pydict"

text \<open>\<^verbatim>\<open>not valid_users\<close> is true for \<^verbatim>\<open>None\<close> and for an empty collection.\<close>

fun truthy :: "py_users option \<Rightarrow> bool" where
  "truthy None = False"
| "truthy (Some (PySet s)) = (s \<noteq> {})"
| "truthy (Some (PyDict d)) = (d \<noteq> [])"

text \<open>\<^verbatim>\<open>user_id in valid_users\<close>; on \<^verbatim>\<open>None\<close> the operator raises.\<close>

fun py_in :: "string \<Rightarrow> py_users option \<Rightarrow> py_error + bool" where
  "py_in x None = Inl TypeError"
| "py_in x (Some (PySet s)) = Inr (x \<in> s)"
| "py_in x (Some (PyDict d)) = Inr (x \<in> fst ` set d)"

text \<open>The first loop: \<^verbatim>\<open>valid_users = set()\<close>, then \<^verbatim>\<open>valid_users.add(user["id_str"])\<close>.\<close>

fun json_add_users :: "string pydict list \<Rightarrow> string set \<Rightarrow> py_error + string set" where
  "json_add_users [] valid_users = Inr valid_users"
| "json_add_users (user # rest) valid_users =
     (case map_of user ''id_str'' of
        None \<Rightarrow> Inl KeyError
      | Some i \<Rightarrow> json_add_users rest (insert i valid_users))"

text \<open>
  The second loop starts from \<^verbatim>\<open>valid_users = {}\<close>, a dictionary, and a dictionary has no
  method \<^verbatim>\<open>add\<close>: the body raises at the first row.
\<close>

fun csv_add_users :: "string pydict list \<Rightarrow> string pydict \<Rightarrow> py_error + string pydict" where
  "csv_add_users [] valid_users = Inr valid_users"
| "csv_add_users (user # rest) valid_users = Inl AttributeError"

text \<open>Run a loop over a lazy reader: the body's exception, or the reader's own at its end.\<close>

definition over_reader ::
  "('a list \<Rightarrow> 's \<Rightarrow> py_error + 's) \<Rightarrow> 'a py_iter \<Rightarrow> 's \<Rightarrow> py_error + 's" where
  "over_reader loop reader init =
     (case loop (fst reader) init of
        Inl e \<Rightarrow> Inl e
      | Inr r \<Rightarrow> (case snd reader of Some e \<Rightarrow> Inl e | None \<Rightarrow> Inr r))"

text \<open>The result and the messages logged on the way.\<close>

definition get_valid_users :: "'e env \<Rightarrow> string \<Rightarrow> py_users option \<times> string list" where
  "get_valid_users ev path =
     (if path_exists ev path then
        (case over_reader json_add_users (open_jsonobjects_file ev path) {} of
           Inr valid_users \<Rightarrow> (Some (PySet valid_users), [])
         | Inl _ \<Rightarrow>
             (case over_reader csv_add_users (open_csv_file ev path) [] of
                Inr valid_users \<Rightarrow> (Some (PyDict valid_users), [])
              | Inl _ \<Rightarrow> (None, [''The file is neither a .json nor a .csv''])))
      else (None, []))"

subsection \<open>The aggregator: \<^verbatim>\<open>process_tweet\<close> and \<^verbatim>\<open>process_lines\<close>\<close>

text \<open>The body of the inner loop, lines 131 to 136, for one emotion of the word.\<close>

definition count_emotion :: "'e lexicon \<Rightarrow> string \<Rightarrow> 'e \<Rightarrow> state \<Rightarrow> py_error + state" where
  "count_emotion lx word emotion s =
     (let name = getEmotionName lx emotion in
      if name \<in> set RELEVANT_EMOTIONS then
        (case map_of (wd_emo s) name of
           None \<Rightarrow> Inl KeyError
         | Some ws \<Rightarrow>
             (case map_of ws word of
                None \<Rightarrow> Inr (s\<lparr>wd_emo := dict_set name (dict_set word 1 ws) (wd_emo s)\<rparr>)
              | Some c \<Rightarrow> Inr (s\<lparr>wd_emo := dict_set name (dict_set word (c + 1) ws) (wd_emo s)\<rparr>)))
      else Inr s)"

text \<open>The body of the outer loop, lines 123 to 136, for one token.\<close>

definition process_word :: "'e lexicon \<Rightarrow> string \<Rightarrow> state \<Rightarrow> py_error + state" where
  "process_word lx word s =
     (let emotions = getEmotionsOfWord lx word;
          s1 = (if emotions \<noteq> []
                then s\<lparr>st_words := st_words s + 1, wd_words := wd_words s + 1\<rparr>
                else s)
      in for_each (count_emotion lx word) emotions s1)"

text \<open>\<^verbatim>\<open>args.users_file and not user_id in valid_users\<close>: is the post skipped?\<close>

definition skipped :: "args \<Rightarrow> py_users option \<Rightarrow> tweet \<Rightarrow> py_error + bool" where
  "skipped a valid_users t =
     (case users_file a of
        None \<Rightarrow> Inr False
      | Some _ \<Rightarrow> (case py_in (user_id t) valid_users of Inl e \<Rightarrow> Inl e | Inr b \<Rightarrow> Inr (\<not> b)))"

definition process_tweet ::
  "'e lexicon \<Rightarrow> args \<Rightarrow> py_users option \<Rightarrow> tweet \<Rightarrow> state \<Rightarrow> py_error + state" where
  "process_tweet lx a valid_users t s =
     (case skipped a valid_users t of
        Inl e \<Rightarrow> Inl e
      | Inr True \<Rightarrow> Inr s
      | Inr False \<Rightarrow>
          (case for_each (process_word lx) (tokenize lx (full_text t)) s of
             Inl e \<Rightarrow> Inl e
           | Inr s1 \<Rightarrow>
               (let s2 = s1\<lparr>wd_tweets := wd_tweets s1 + 1, st_tweets := st_tweets s1 + 1\<rparr>;
                    nobjs = st_tweets s2
                in Inr (if (nobjs - 1) mod NTWEET = 0 then s2\<lparr>dots := Suc (dots s2)\<rparr> else s2))))"

text \<open>Lines 78 to 80: the filter is loaded only when a users file is configured.\<close>

definition load_users :: "'e env \<Rightarrow> args \<Rightarrow> state \<Rightarrow> py_users option \<times> state" where
  "load_users ev a s =
     (case users_file a of
        None \<Rightarrow> (None, s)
      | Some path \<Rightarrow>
          (let (valid_users, msgs) = get_valid_users ev path
           in (valid_users,
               s\<lparr>logged := logged s @ [''Specified a set of users to filter the tweet''] @ msgs\<rparr>)))"

text \<open>
  \<^verbatim>\<open>process_lines\<close> returns the language, or \<^verbatim>\<open>None\<close>; \<^verbatim>\<open>next(dump)\<close> raises on an empty
  dump.
\<close>

definition process_lines ::
  "'e env \<Rightarrow> args \<Rightarrow> tweet list \<Rightarrow> state \<Rightarrow> py_error + (string option \<times> state)" where
  "process_lines ev a dump s =
     (case dump of
        [] \<Rightarrow> Inl StopIteration
      | first # rest \<Rightarrow>
          (let (valid_users, s1) = load_users ev a (s\<lparr>consumed := consumed s + 1\<rparr>)
           in if users_file a \<noteq> None \<and> \<not> truthy valid_users then
                Inr (None, s1\<lparr>logged := logged s1 @
                                 [''The file of valid users could not be found\<newline>'']\<rparr>)
              else
                (case initEmotionLexicon ev (lang first) of
                   None \<Rightarrow> Inr (None, s1)
                 | Some lx \<Rightarrow>
                     (case for_each (process_tweet lx a valid_users) (first # rest) s1 of
                        Inl e \<Rightarrow> Inl e
                      | Inr s2 \<Rightarrow>
                          Inr (Some (lang first),
                               s2\<lparr>consumed := consumed s2 + length rest\<rparr>)))))"

subsection \<open>The ranker: \<^verbatim>\<open>get_first_n_words\<close>\<close>

text \<open>
  A row of the output.  \<open>occ_words\<close> and \<open>occ_tweets\<close> are doubles, the results of \<^verbatim>\<open>/\<close>.
\<close>

record row =
  word :: string
  occurrences :: int
  occ_words :: rat
  occ_tweets :: rat
  emotion :: string

text \<open>
  Lines 154 to 161: the dictionary that is yielded for one word; its values are computed in
  the order they are written.
\<close>

definition make_row :: "state \<Rightarrow> string \<Rightarrow> int pydict \<Rightarrow> string \<Rightarrow> py_error + row" where
  "make_row s emo ws w =
     (case map_of ws w of
        None \<Rightarrow> Inl KeyError
      | Some occ \<Rightarrow>
          (case py_truediv occ (wd_words s) of
             Inl e \<Rightarrow> Inl e
           | Inr per_word \<Rightarrow>
               (case py_truediv occ (wd_tweets s) of
                  Inl e \<Rightarrow> Inl e
                | Inr per_tweet \<Rightarrow>
                    Inr \<lparr>word = w, occurrences = occ,
                         occ_words = per_word, occ_tweets = per_tweet,
                         emotion = emo\<rparr>)))"

text \<open>Line 151: the words of one emotion, most frequent first.\<close>

definition sorted_words :: "int pydict \<Rightarrow> string list" where
  "sorted_words ws = map fst (sorted_reverse ws)"

text \<open>Lines 150 to 161 for one entry of \<^verbatim>\<open>words_dict\<close>: the rows it attempts, in order.\<close>

definition emotion_rows :: "state \<Rightarrow> int \<Rightarrow> string \<times> int pydict \<Rightarrow> (py_error + row) list" where
  "emotion_rows s n item =
     (let emo = fst item; ws = snd item in
      if emo \<in> set RELEVANT_EMOTIONS then
        (let n_words = (if int (length (sorted_words ws)) \<ge> n then n
                        else int (length (sorted_words ws)))
         in map (make_row s emo ws) (take (nat n_words) (sorted_words ws)))
      else [])"

text \<open>A generator yields until the computation of a row raises.\<close>

fun yield_until_raise :: "(py_error + 'a) list \<Rightarrow> 'a py_iter" where
  "yield_until_raise [] = ([], None)"
| "yield_until_raise (Inl e # _) = ([], Some e)"
| "yield_until_raise (Inr r # rest) =
     (case yield_until_raise rest of (rs, e) \<Rightarrow> (r # rs, e))"

definition get_first_n_words :: "state \<Rightarrow> args \<Rightarrow> row py_iter" where
  "get_first_n_words s a =
     yield_until_raise (concat (map (emotion_rows s (n_words a)) (wd_emo s)))"

subsection \<open>The entry point: \<^verbatim>\<open>main\<close>\<close>

text \<open>The names of the two files, by the parts the format strings put together.\<close>

datatype out_path =
    StatsPath string "string option" string
  | CsvPath string string "string list" int

text \<open>
  What a run leaves behind: the exception that ended it (if any), the final state, the
  ranked file (\<open>None\<close> when the rows went to \<^verbatim>\<open>os.devnull\<close>) with the rows written to it, and
  the stats file with the two counters rendered into it (\<open>None\<close> inside when the run raised
  before rendering).  Start and end time are not modelled.
\<close>

record outcome =
  raised :: "py_error option"
  final :: state
  output_file :: "(out_path \<times> row list) option"
  stats_file :: "(out_path \<times> (int \<times> int) option) option"

definition initial_state :: state where
  "initial_state =
     \<lparr>wd_emo = [], wd_words = 0, wd_tweets = 0, st_words = 0, st_tweets = 0,
      logged = [], dots = 0, consumed = 0\<rparr>"

text \<open>Lines 209 to 215: an empty dictionary under each relevant emotion, two zero counters.\<close>

definition init_words_dict :: "state \<Rightarrow> state" where
  "init_words_dict s =
     s\<lparr>wd_emo := fold (\<lambda>emo d. dict_set emo [] d) RELEVANT_EMOTIONS [],
       wd_words := 0, wd_tweets := 0\<rparr>"

definition main :: "'e env \<Rightarrow> tweet list \<Rightarrow> string \<Rightarrow> args \<Rightarrow> outcome" where
  "main ev dump basename a =
     (if n_words a \<le> 0 then
        \<lparr>raised = Some (SystemExit 1),
         final = initial_state\<lparr>logged :=
           [''the parameter --n-words cannot be lower than 1, exiting...'']\<rparr>,
         output_file = None, stats_file = None\<rparr>
      else
        (let s0 = init_words_dict initial_state in
         case process_lines ev a dump s0 of
           Inl e \<Rightarrow> \<lparr>raised = Some e, final = s0, output_file = None, stats_file = None\<rparr>
         | Inr (lang_opt, s1) \<Rightarrow>
             (let res = get_first_n_words s1 a;
                  path_list = re_split basename
              in if length path_list < 5 then
                   \<lparr>raised = Some IndexError, final = s1, output_file = None, stats_file = None\<rparr>
                 else
                   (let stats_target =
                          (if dry_run a then None
                           else Some (StatsPath (output_dir_path a) lang_opt basename));
                        output_target =
                          (case lang_opt of
                             None \<Rightarrow> None
                           | Some l \<Rightarrow>
                               if dry_run a then None
                               else Some (CsvPath (output_dir_path a) l
                                            (take 5 path_list) (n_words a)))
                    in case snd res of
                         Some e \<Rightarrow>
                           \<lparr>raised = Some e, final = s1,
                            output_file = map_option (\<lambda>p. (p, fst res)) output_target,
                            stats_file = map_option (\<lambda>p. (p, None)) stats_target\<rparr>
                       | None \<Rightarrow>
                           \<lparr>raised = None, final = s1,
                            output_file = map_option (\<lambda>p. (p, fst res)) output_target,
                            stats_file = map_option
                              (\<lambda>p. (p, Some (st_words s1, st_tweets s1))) stats_target\<rparr>))))"

subsection \<open>Observations used in the statements\<close>

text \<open>\<^verbatim>\<open>words_dict[emo].get(w, 0)\<close>: how often word \<open>w\<close> was counted under emotion \<open>emo\<close>.\<close>

definition occ :: "state \<Rightarrow> string \<Rightarrow> string \<Rightarrow> int" where
  "occ s emo w =
     (case map_of (wd_emo s) emo of
        None \<Rightarrow> 0
      | Some ws \<Rightarrow> (case map_of ws w of None \<Rightarrow> 0 | Some c \<Rightarrow> c))"

text \<open>Every relevant emotion is a key of \<^verbatim>\<open>words_dict\<close>, as \<^verbatim>\<open>main\<close> sets it up.\<close>

definition emotion_keys :: "state \<Rightarrow> bool" where
  "emotion_keys s = (set RELEVANT_EMOTIONS \<subseteq> fst ` set (wd_emo s))"

text \<open>The emotion names of a token, in the order of the inner loop.\<close>

definition emotion_names :: "'e lexicon \<Rightarrow> string \<Rightarrow> string list" where
  "emotion_names lx w = map (getEmotionName lx) (getEmotionsOfWord lx w)"

text \<open>The number of tokens with a non-empty emotion collection.\<close>

definition matched :: "'e lexicon \<Rightarrow> string list \<Rightarrow> nat" where
  "matched lx toks = length (filter (\<lambda>t. getEmotionsOfWord lx t \<noteq> []) toks)"

text \<open>How often the occurrences of word \<open>w\<close> among the tokens name the emotion \<open>emo\<close>.\<close>

definition hits :: "'e lexicon \<Rightarrow> string list \<Rightarrow> string \<Rightarrow> string \<Rightarrow> nat" where
  "hits lx toks emo w =
     sum_list (map (\<lambda>t. if t = w then count_list (emotion_names lx t) emo else 0) toks)"

text \<open>
  A post passes the user filter: no users file is configured, or the author's id is in the
  loaded collection.
\<close>

definition passes :: "args \<Rightarrow> py_users option \<Rightarrow> tweet \<Rightarrow> bool" where
  "passes a valid_users t =
     (case users_file a of
        None \<Rightarrow> True
      | Some _ \<Rightarrow>
          (case valid_users of
             None \<Rightarrow> False
           | Some (PySet ids) \<Rightarrow> user_id t \<in> ids
           | Some (PyDict d) \<Rightarrow> user_id t \<in> fst ` set d))"

text \<open>The filter \<^verbatim>\<open>process_lines\<close> works with: \<^verbatim>\<open>None\<close> without a users file.\<close>

definition loaded_users :: "'e env \<Rightarrow> args \<Rightarrow> py_users option" where
  "loaded_users ev a =
     (case users_file a of None \<Rightarrow> None | Some path \<Rightarrow> fst (get_valid_users ev path))"

text \<open>The tokens of a sequence of posts, in order.\<close>

definition all_tokens :: "'e lexicon \<Rightarrow> tweet list \<Rightarrow> string list" where
  "all_tokens lx ts = concat (map (\<lambda>t. tokenize lx (full_text t)) ts)"

text \<open>No word has been recorded under any key of \<^verbatim>\<open>words_dict\<close>.\<close>

definition no_words :: "state \<Rightarrow> bool" where
  "no_words s = list_all (\<lambda>item. snd item = []) (wd_emo s)"

text \<open>
  The state after \<^verbatim>\<open>process_lines\<close> has given up on the users file: one post taken from the
  dump and the messages logged, on the counters \<^verbatim>\<open>main\<close> sets up.
\<close>

definition after_failed_load :: "'e env \<Rightarrow> string \<Rightarrow> state" where
  "after_failed_load ev path =
     (init_words_dict initial_state)\<lparr>consumed := 1,
        logged := [''Specified a set of users to filter the tweet'']
          @ snd (get_valid_users ev path)
          @ [''The file of valid users could not be found\<newline>'']\<rparr>"

text \<open>
  The totals are never negative, and once a word is recorded at least one word and one post
  have been counted.
\<close>

definition counted :: "state \<Rightarrow> bool" where
  "counted s =
     (0 \<le> wd_words s \<and> 0 \<le> wd_tweets s \<and>
      (no_words s \<or> (1 \<le> wd_words s \<and> 1 \<le> wd_tweets s)))"

text \<open>Every recorded count is below \<open>2 ^ 1023\<close>, so no quotient of it leaves the doubles.\<close>

definition small_counts :: "state \<Rightarrow> bool" where
  "small_counts s =
     list_all (\<lambda>item. list_all (\<lambda>kv. \<bar>snd kv\<bar> < 2 ^ 1023) (snd item)) (wd_emo s)"

text \<open>
  No word is recorded, or both totals are non-zero and the counts are in range: what the
  ranker needs to divide without an exception.
\<close>

definition rankable :: "state \<Rightarrow> bool" where
  "rankable s = (no_words s \<or> (wd_words s \<noteq> 0 \<and> wd_tweets s \<noteq> 0 \<and> small_counts s))"

text \<open>The value of a division that does not raise.\<close>

definition quotient :: "int \<Rightarrow> int \<Rightarrow> rat" where
  "quotient a b = (case py_truediv a b of Inl _ \<Rightarrow> 0 | Inr v \<Rightarrow> v)"

text \<open>The row for word \<open>w\<close> of emotion \<open>emo\<close>, when the divisions are defined.\<close>

definition ranked_row :: "state \<Rightarrow> string \<Rightarrow> int pydict \<Rightarrow> string \<Rightarrow> row" where
  "ranked_row s emo ws w =
     (let c = (case map_of ws w of None \<Rightarrow> 0 | Some c \<Rightarrow> c)
      in \<lparr>word = w, occurrences = c,
          occ_words = quotient c (wd_words s),
          occ_tweets = quotient c (wd_tweets s),
          emotion = emo\<rparr>)"

text \<open>The rows of one entry of \<^verbatim>\<open>words_dict\<close>: the first \<open>n\<close> of its sorted words.\<close>

definition ranked :: "state \<Rightarrow> int \<Rightarrow> string \<times> int pydict \<Rightarrow> row list" where
  "ranked s n item =
     (if fst item \<in> set RELEVANT_EMOTIONS
      then map (ranked_row s (fst item) (snd item)) (take (nat n) (sorted_words (snd item)))
      else [])"

subsection \<open>A small lexicon and run, for concrete instances\<close>

text \<open>A tokenizer that splits at spaces, and a lexicon of three words, one of them with an
  emotion outside the relevant ones.\<close>

fun split_spaces :: "string \<Rightarrow> string list" where
  "split_spaces [] = []"
| "split_spaces (c # cs) =
     (if c = CHR '' '' then split_spaces cs
      else (case cs of
              [] \<Rightarrow> [[c]]
            | d # _ \<Rightarrow> if d = CHR '' '' then [c] # split_spaces cs
                       else (case split_spaces cs of [] \<Rightarrow> [[c]] | p # ps \<Rightarrow> (c # p) # ps)))"

definition ex_lexicon :: "string lexicon" where
  "ex_lexicon =
     \<lparr>tokenize = split_spaces,
      getEmotionsOfWord = (\<lambda>w.
        if w = ''happy'' then [''joy'', ''positive'', ''trust'']
        else if w = ''grim'' then [''sadness'', ''negative'']
        else if w = ''odd'' then [''weird'']
        else []),
      getEmotionName = (\<lambda>e. e)\<rparr>"

text \<open>A command line: the two most frequent words of each emotion, no users file.\<close>

definition ex_args :: args where
  "ex_args = \<lparr>n_words = 2, users_file = None, dry_run = False, output_dir_path = ''out''\<rparr>"

text \<open>A post with two occurrences of a word of three emotions.\<close>

definition ex_tweet :: tweet where
  "ex_tweet = \<lparr>full_text = ''happy grim day happy'', user_id = ''u1'', lang = ''en''\<rparr>"

text \<open>
  A world with one users file (present or not, with what the two readers yield for it) and a
  lexicon for English only.
\<close>

definition ex_env :: "bool \<Rightarrow> (string pydict) py_iter \<Rightarrow> (string pydict) py_iter \<Rightarrow> string env" where
  "ex_env present js csv =
     \<lparr>path_exists = (\<lambda>_. present),
      open_jsonobjects_file = (\<lambda>_. js),
      open_csv_file = (\<lambda>_. csv),
      initEmotionLexicon = (\<lambda>l. if l = ''en'' then Some ex_lexicon else None)\<rparr>"

text \<open>The same command line with \<^verbatim>\<open>--users-file users\<close>.\<close>

definition ex_args_users :: args where
  "ex_args_users = ex_args\<lparr>users_file := Some ''users''\<rparr>"

text \<open>Three posts, by the authors u1, u2 and u1.\<close>

definition ex_dump :: "tweet list" where
  "ex_dump =
     [ex_tweet,
      \<lparr>full_text = ''grim grim'', user_id = ''u2'', lang = ''en''\<rparr>,
      \<lparr>full_text = ''an odd day'', user_id = ''u1'', lang = ''en''\<rparr>]"

text \<open>A file name of six parts.\<close>

definition ex_basename :: string where
  "ex_basename = ''tweets-part-2020-01-15.json''"

text \<open>Counters with 10 matched words and 4 posts.\<close>

definition ex_counts :: state where
  "ex_counts =
     \<lparr>wd_emo = [(''joy'', [(''happy'', 5), (''fun'', 3)]), (''trust'', [(''happy'', 5)])],
      wd_words = 10, wd_tweets = 4, st_words = 10, st_tweets = 4,
      logged = [], dots = 1, consumed = 4\<rparr>"

text \<open>A word dictionary with a tie, and counters that hold it.\<close>

definition ex_ties :: "int pydict" where
  "ex_ties = [(''happy'', 5), (''glad'', 5), (''fun'', 3)]"

definition ex_ties_state :: state where
  "ex_ties_state =
     \<lparr>wd_emo = [(''joy'', ex_ties)],
      wd_words = 13, wd_tweets = 6, st_words = 13, st_tweets = 6,
      logged = [], dots = 1, consumed = 6\<rparr>"

section \<open>Properties\<close>

subsection \<open>Dictionaries\<close>

lemma map_of_dict_set: "map_of (dict_set k v al) = (map_of al)(k \<mapsto> v)"
  by (induction al) (auto simp: fun_eq_iff)

lemma keys_dict_set: "fst ` set (dict_set k v al) = insert k (fst ` set al)"
  by (induction al) auto

lemma map_of_keys: "k \<in> fst ` set al \<Longrightarrow> \<exists>v. map_of al k = Some v"
  by (induction al) auto

subsection \<open>True division\<close>


lemma pow2_pos: "0 < pow2 e"
  by (simp add: pow2_def)

lemma pow2_powi: "pow2 e = 2 powi e"
  by (simp add: pow2_def power_int_def power_inverse[symmetric] inverse_eq_divide power_one_over)

lemma pow2_nat: "0 \<le> e \<Longrightarrow> pow2 e = 2 ^ nat e"
  by (simp add: pow2_def)

text \<open>\<open>bit_length\<close> is the number of binary digits.\<close>

lemma bit_length_bounds:
  "0 < n \<Longrightarrow> 1 \<le> bit_length n \<and> 2 ^ nat (bit_length n - 1) \<le> n \<and> n < 2 ^ nat (bit_length n)"
proof (induction n rule: bit_length.induct)
  case (1 n)
  show ?case
  proof (cases "n div 2 = 0")
    case True
    with "1.prems" have n1: "n = 1" by presburger
    have "bit_length 1 = 1" by (simp add: bit_length.simps)
    then show ?thesis using n1 by simp
  next
    case False
    with "1.prems" have h: "0 < n div 2" by presburger
    define k where "k = bit_length (n div 2)"
    from "1.IH" "1.prems" h have ih: "1 \<le> k" "2 ^ nat (k - 1) \<le> n div 2" "n div 2 < 2 ^ nat k"
      by (simp_all add: k_def)
    have bl: "bit_length n = 1 + k" using "1.prems" by (subst bit_length.simps) (simp add: k_def)
    have p: "(2::int) ^ nat k = 2 * 2 ^ nat (k - 1)"
      using ih(1) by (metis Suc_nat_eq_nat_zadd1 add.commute diff_add_cancel diff_ge_0_iff_ge power_Suc)
    have p2: "(2::int) ^ nat (1 + k) = 2 * 2 ^ nat k"
      using ih(1) by (simp add: nat_add_distrib)
    have lo: "2 ^ nat k \<le> n" using ih(2) p by presburger
    have hi: "n < 2 * 2 ^ nat k" using ih(3) by presburger
    show ?thesis using ih(1) lo hi by (simp add: bl p2)
  qed
qed


lemma pow2_diff: "pow2 (x - y) = pow2 x / pow2 y"
  by (simp add: pow2_powi power_int_diff)

lemma of_int_pow2_bounds:
  assumes "0 < n"
  shows "pow2 (bit_length n - 1) \<le> of_int n" and "of_int n < pow2 (bit_length n)"
proof -
  from bit_length_bounds[OF assms]
  have b: "1 \<le> bit_length n" "2 ^ nat (bit_length n - 1) \<le> n" "n < 2 ^ nat (bit_length n)"
    by simp_all
  have "(of_int (2 ^ nat (bit_length n - 1)) :: rat) \<le> of_int n"
    using b(2) by (simp only: of_int_le_iff)
  then show "pow2 (bit_length n - 1) \<le> of_int n" using b(1) by (simp add: pow2_nat)
  have "(of_int n :: rat) < of_int (2 ^ nat (bit_length n))"
    using b(3) by (simp only: of_int_less_iff)
  then show "of_int n < pow2 (bit_length n)" using b(1) by (simp add: pow2_nat)
qed

text \<open>\<open>quotient_exponent\<close> is the exponent of the quotient.\<close>

lemma quotient_exponent_bounds:
  assumes "0 < a" and "0 < b"
  shows "pow2 (quotient_exponent a b) \<le> of_int a / of_int b \<and>
         of_int a / of_int b < pow2 (quotient_exponent a b + 1)"
proof -
  define d where "d = bit_length a - bit_length b"
  note ba = of_int_pow2_bounds[OF assms(1)] and bb = of_int_pow2_bounds[OF assms(2)]
  have bp: "(0::rat) < of_int b" using assms(2) by simp
  have ap: "(0::rat) < of_int a" using assms(1) by simp
  have "of_int a / of_int b < pow2 (bit_length a) / of_int b"
    using ba(2) bp by (simp add: divide_strict_right_mono)
  also have "\<dots> \<le> pow2 (bit_length a) / pow2 (bit_length b - 1)"
    using bb(1) pow2_pos[of "bit_length a"] pow2_pos[of "bit_length b - 1"]
    by (intro divide_left_mono) (simp_all add: less_imp_le)
  also have "\<dots> = pow2 (d + 1)"
  proof -
    have "d + 1 = bit_length a - (bit_length b - 1)" by (simp add: d_def)
    then show ?thesis by (simp only: pow2_diff)
  qed
  finally have hi: "of_int a / of_int b < pow2 (d + 1)" .
  have "d - 1 = (bit_length a - 1) - bit_length b" by (simp add: d_def)
  then have "pow2 (d - 1) = pow2 (bit_length a - 1) / pow2 (bit_length b)"
    by (simp only: pow2_diff)
  also have "\<dots> \<le> of_int a / pow2 (bit_length b)"
    using ba(1) pow2_pos[of "bit_length b"] by (simp add: divide_right_mono less_imp_le)
  also have "\<dots> \<le> of_int a / of_int b"
    using bb(2) ap bp by (intro divide_left_mono) (simp_all add: less_imp_le)
  finally have lo: "pow2 (d - 1) \<le> of_int a / of_int b" .
  show ?thesis
  proof (cases "pow2 d \<le> of_int a / of_int b")
    case True
    then have "quotient_exponent a b = d" by (simp add: quotient_exponent_def d_def)
    then show ?thesis using True hi by simp
  next
    case False
    then have "quotient_exponent a b = d - 1" by (simp add: quotient_exponent_def d_def)
    then show ?thesis using False lo by simp
  qed
qed




lemma py_truediv_Inl:
  assumes "py_truediv a b = Inl e"
  shows "(b = 0 \<and> e = ZeroDivisionError) \<or> (b \<noteq> 0 \<and> e = OverflowError)"
  using assms by (auto simp: py_truediv_def split: if_splits)

lemma py_truediv_defined:
  assumes "b \<noteq> 0" and "\<bar>a\<bar> < 2 ^ 1023"
  shows "\<exists>v. py_truediv a b = Inr v"
proof -
  have b1: "1 \<le> \<bar>b\<bar>" using assms(1) by simp
  then have "(1 :: rat) \<le> of_int \<bar>b\<bar>" by (simp only: of_int_1_le_iff)
  then have "(of_int \<bar>a\<bar> :: rat) / of_int \<bar>b\<bar> \<le> of_int \<bar>a\<bar> / 1"
    by (intro divide_left_mono) simp_all
  then have "(of_int \<bar>a\<bar> :: rat) / of_int \<bar>b\<bar> \<le> of_int \<bar>a\<bar>" by simp
  moreover have "(of_int \<bar>a\<bar> :: rat) < of_int (2 ^ 1023)"
    using assms(2) by (simp only: of_int_less_iff)
  ultimately have "\<bar>of_int a / of_int b :: rat\<bar> < 2 ^ 1023" by simp
  moreover have "(2 :: rat) ^ 1023 \<le> 2 ^ 1024 - 2 ^ 970" by simp
  ultimately have "\<not> (2 ^ 1024 - 2 ^ 970 \<le> \<bar>of_int a / of_int b :: rat\<bar>)" by linarith
  then show ?thesis using assms(1) by (simp add: py_truediv_def)
qed


subsection \<open>The effect of the aggregation loops\<close>

text \<open>
  With every relevant emotion a key of \<^verbatim>\<open>words_dict\<close> no step raises, and each loop changes
  the counters by what its tokens contribute.
\<close>

lemma count_emotion_effect:
  assumes "emotion_keys s"
  shows "\<exists>d. count_emotion lx w e s = Inr (s\<lparr>wd_emo := d\<rparr>) \<and>
             emotion_keys (s\<lparr>wd_emo := d\<rparr>) \<and>
             (\<forall>emo w'. occ (s\<lparr>wd_emo := d\<rparr>) emo w' = occ s emo w' +
                (if w' = w \<and> emo \<in> set RELEVANT_EMOTIONS \<and> emo = getEmotionName lx e
                 then 1 else 0))"
proof (cases "getEmotionName lx e \<in> set RELEVANT_EMOTIONS")
  case False
  have "count_emotion lx w e s = Inr (s\<lparr>wd_emo := wd_emo s\<rparr>)"
    using False by (simp add: count_emotion_def)
  moreover have "emotion_keys (s\<lparr>wd_emo := wd_emo s\<rparr>)" using assms by simp
  ultimately show ?thesis using False by (intro exI[of _ "wd_emo s"]) auto
next
  case True
  let ?n = "getEmotionName lx e"
  from True assms have "?n \<in> fst ` set (wd_emo s)" by (auto simp: emotion_keys_def)
  then obtain ws where ws: "map_of (wd_emo s) ?n = Some ws" using map_of_keys[of ?n "wd_emo s"] by auto
  let ?c = "(case map_of ws w of None \<Rightarrow> 1 | Some c \<Rightarrow> c + 1)"
  let ?d = "dict_set ?n (dict_set w ?c ws) (wd_emo s)"
  have 1: "count_emotion lx w e s = Inr (s\<lparr>wd_emo := ?d\<rparr>)"
    using True ws by (cases "map_of ws w") (simp_all add: count_emotion_def)
  have 2: "emotion_keys (s\<lparr>wd_emo := ?d\<rparr>)"
    using assms by (auto simp: emotion_keys_def keys_dict_set)
  have 3: "occ (s\<lparr>wd_emo := ?d\<rparr>) emo w' = occ s emo w' +
                (if w' = w \<and> emo \<in> set RELEVANT_EMOTIONS \<and> emo = ?n then 1 else 0)" for emo w'
    using True ws by (cases "map_of ws w") (simp_all add: occ_def map_of_dict_set)
  from 1 2 3 show ?thesis by blast
qed

lemma emotions_loop_effect:
  assumes "emotion_keys s"
  shows "\<exists>d. for_each (count_emotion lx w) es s = Inr (s\<lparr>wd_emo := d\<rparr>) \<and>
             emotion_keys (s\<lparr>wd_emo := d\<rparr>) \<and>
             (\<forall>emo w'. occ (s\<lparr>wd_emo := d\<rparr>) emo w' = occ s emo w' +
                (if w' = w \<and> emo \<in> set RELEVANT_EMOTIONS
                 then int (count_list (map (getEmotionName lx) es) emo) else 0))"
  using assms
proof (induction es arbitrary: s)
  case Nil
  have "for_each (count_emotion lx w) [] s = Inr (s\<lparr>wd_emo := wd_emo s\<rparr>)" by simp
  moreover have "emotion_keys (s\<lparr>wd_emo := wd_emo s\<rparr>)" using Nil by simp
  ultimately show ?case by (intro exI[of _ "wd_emo s"]) simp
next
  case (Cons e es)
  from count_emotion_effect[OF Cons.prems, of lx w e]
  obtain d1 where d1: "count_emotion lx w e s = Inr (s\<lparr>wd_emo := d1\<rparr>)"
    and k1: "emotion_keys (s\<lparr>wd_emo := d1\<rparr>)"
    and o1: "\<And>emo w'. occ (s\<lparr>wd_emo := d1\<rparr>) emo w' = occ s emo w' +
                (if w' = w \<and> emo \<in> set RELEVANT_EMOTIONS \<and> emo = getEmotionName lx e
                 then 1 else 0)"
    by blast
  from Cons.IH[OF k1]
  obtain d2 where d2: "for_each (count_emotion lx w) es (s\<lparr>wd_emo := d1\<rparr>) = Inr (s\<lparr>wd_emo := d2\<rparr>)"
    and k2: "emotion_keys (s\<lparr>wd_emo := d2\<rparr>)"
    and o2: "\<And>emo w'. occ (s\<lparr>wd_emo := d2\<rparr>) emo w' = occ (s\<lparr>wd_emo := d1\<rparr>) emo w' +
                (if w' = w \<and> emo \<in> set RELEVANT_EMOTIONS
                 then int (count_list (map (getEmotionName lx) es) emo) else 0)"
    by auto
  have r: "for_each (count_emotion lx w) (e # es) s = Inr (s\<lparr>wd_emo := d2\<rparr>)"
    using d1 d2 by simp
  have o: "occ (s\<lparr>wd_emo := d2\<rparr>) emo w' = occ s emo w' +
                (if w' = w \<and> emo \<in> set RELEVANT_EMOTIONS
                 then int (count_list (map (getEmotionName lx) (e # es)) emo) else 0)" for emo w'
    by (auto simp add: o2 o1)
  from r k2 o show ?case by blast
qed

lemma process_word_effect:
  assumes "emotion_keys s"
  shows "\<exists>s'. process_word lx w s = Inr s' \<and> emotion_keys s' \<and>
           wd_words s' = wd_words s + (if getEmotionsOfWord lx w = [] then 0 else 1) \<and>
           st_words s' = st_words s + (if getEmotionsOfWord lx w = [] then 0 else 1) \<and>
           wd_tweets s' = wd_tweets s \<and> st_tweets s' = st_tweets s \<and>
           logged s' = logged s \<and> dots s' = dots s \<and> consumed s' = consumed s \<and>
           (\<forall>emo w'. occ s' emo w' = occ s emo w' +
              (if w' = w \<and> emo \<in> set RELEVANT_EMOTIONS
               then int (count_list (emotion_names lx w) emo) else 0))"
proof -
  let ?s1 = "(if getEmotionsOfWord lx w \<noteq> []
              then s\<lparr>st_words := st_words s + 1, wd_words := wd_words s + 1\<rparr> else s)"
  have k: "emotion_keys ?s1" using assms by (simp add: emotion_keys_def)
  have o: "occ ?s1 emo w' = occ s emo w'" for emo w' by (simp add: occ_def)
  from emotions_loop_effect[OF k, of lx w "getEmotionsOfWord lx w"]
  obtain d where d: "for_each (count_emotion lx w) (getEmotionsOfWord lx w) ?s1 = Inr (?s1\<lparr>wd_emo := d\<rparr>)"
    and kd: "emotion_keys (?s1\<lparr>wd_emo := d\<rparr>)"
    and od: "\<And>emo w'. occ (?s1\<lparr>wd_emo := d\<rparr>) emo w' = occ ?s1 emo w' +
                (if w' = w \<and> emo \<in> set RELEVANT_EMOTIONS
                 then int (count_list (map (getEmotionName lx) (getEmotionsOfWord lx w)) emo) else 0)"
    by blast
  have r: "process_word lx w s = Inr (?s1\<lparr>wd_emo := d\<rparr>)"
    using d by (simp add: process_word_def Let_def)
  show ?thesis
    apply (rule exI[of _ "?s1\<lparr>wd_emo := d\<rparr>"])
    apply (intro conjI)
             apply (rule r)
            apply (rule kd)
           apply simp
          apply simp
         apply simp
        apply simp
       apply simp
      apply simp
     apply simp
    apply (simp only: od o emotion_names_def)
    apply simp
    done
qed

lemma tokens_loop_effect:
  assumes "emotion_keys s"
  shows "\<exists>s'. for_each (process_word lx) toks s = Inr s' \<and> emotion_keys s' \<and>
           wd_words s' = wd_words s + int (matched lx toks) \<and>
           st_words s' = st_words s + int (matched lx toks) \<and>
           wd_tweets s' = wd_tweets s \<and> st_tweets s' = st_tweets s \<and>
           logged s' = logged s \<and> dots s' = dots s \<and> consumed s' = consumed s \<and>
           (\<forall>emo w. occ s' emo w = occ s emo w +
              (if emo \<in> set RELEVANT_EMOTIONS then int (hits lx toks emo w) else 0))"
  using assms
proof (induction toks arbitrary: s)
  case Nil
  then show ?case by (simp add: matched_def hits_def)
next
  case (Cons t toks)
  from process_word_effect[OF Cons.prems, of lx t]
  obtain s1 where s1: "process_word lx t s = Inr s1" and k1: "emotion_keys s1"
    and w1: "wd_words s1 = wd_words s + (if getEmotionsOfWord lx t = [] then 0 else 1)"
    and x1: "st_words s1 = st_words s + (if getEmotionsOfWord lx t = [] then 0 else 1)"
    and f1: "wd_tweets s1 = wd_tweets s" "st_tweets s1 = st_tweets s"
            "logged s1 = logged s" "dots s1 = dots s" "consumed s1 = consumed s"
    and o1: "\<And>emo w'. occ s1 emo w' = occ s emo w' +
              (if w' = t \<and> emo \<in> set RELEVANT_EMOTIONS
               then int (count_list (emotion_names lx t) emo) else 0)"
    by blast
  from Cons.IH[OF k1]
  obtain s2 where s2: "for_each (process_word lx) toks s1 = Inr s2" and k2: "emotion_keys s2"
    and w2: "wd_words s2 = wd_words s1 + int (matched lx toks)"
    and x2: "st_words s2 = st_words s1 + int (matched lx toks)"
    and f2: "wd_tweets s2 = wd_tweets s1" "st_tweets s2 = st_tweets s1"
            "logged s2 = logged s1" "dots s2 = dots s1" "consumed s2 = consumed s1"
    and o2: "\<And>emo w. occ s2 emo w = occ s1 emo w +
              (if emo \<in> set RELEVANT_EMOTIONS then int (hits lx toks emo w) else 0)"
    by blast
  have r: "for_each (process_word lx) (t # toks) s = Inr s2" using s1 s2 by simp
  have w: "wd_words s2 = wd_words s + int (matched lx (t # toks))"
    using w1 w2 by (simp add: matched_def)
  have x: "st_words s2 = st_words s + int (matched lx (t # toks))"
    using x1 x2 by (simp add: matched_def)
  have o: "occ s2 emo w = occ s emo w +
              (if emo \<in> set RELEVANT_EMOTIONS then int (hits lx (t # toks) emo w) else 0)" for emo w
    by (auto simp add: o2 o1 hits_def)
  show ?case
    apply (rule exI[of _ s2])
    apply (intro conjI allI)
             apply (rule r)
            apply (rule k2)
           apply (rule w)
          apply (rule x)
         apply (simp add: f1 f2)
        apply (simp add: f1 f2)
       apply (simp add: f1 f2)
      apply (simp add: f1 f2)
     apply (simp add: f1 f2)
    apply (rule o)
    done
qed

lemma process_tweet_effect:
  assumes "emotion_keys s" and "skipped a valid_users t = Inr False"
  shows "\<exists>s'. process_tweet lx a valid_users t s = Inr s' \<and> emotion_keys s' \<and>
           wd_words s' = wd_words s + int (matched lx (tokenize lx (full_text t))) \<and>
           st_words s' = st_words s + int (matched lx (tokenize lx (full_text t))) \<and>
           wd_tweets s' = wd_tweets s + 1 \<and> st_tweets s' = st_tweets s + 1 \<and>
           logged s' = logged s \<and> consumed s' = consumed s \<and>
           (\<forall>emo w. occ s' emo w = occ s emo w +
              (if emo \<in> set RELEVANT_EMOTIONS
               then int (hits lx (tokenize lx (full_text t)) emo w) else 0))"
proof -
  from tokens_loop_effect[OF assms(1), of lx "tokenize lx (full_text t)"]
  obtain s1 where s1: "for_each (process_word lx) (tokenize lx (full_text t)) s = Inr s1"
    and k1: "emotion_keys s1"
    and w1: "wd_words s1 = wd_words s + int (matched lx (tokenize lx (full_text t)))"
    and x1: "st_words s1 = st_words s + int (matched lx (tokenize lx (full_text t)))"
    and f1: "wd_tweets s1 = wd_tweets s" "st_tweets s1 = st_tweets s"
            "logged s1 = logged s" "dots s1 = dots s" "consumed s1 = consumed s"
    and o1: "\<And>emo w. occ s1 emo w = occ s emo w +
              (if emo \<in> set RELEVANT_EMOTIONS
               then int (hits lx (tokenize lx (full_text t)) emo w) else 0)"
    by blast
  let ?s2 = "s1\<lparr>wd_tweets := wd_tweets s1 + 1, st_tweets := st_tweets s1 + 1\<rparr>"
  let ?s3 = "(if (st_tweets ?s2 - 1) mod NTWEET = 0 then ?s2\<lparr>dots := Suc (dots ?s2)\<rparr> else ?s2)"
  have r: "process_tweet lx a valid_users t s = Inr ?s3"
    using assms(2) s1 by (simp add: process_tweet_def Let_def)
  have k: "emotion_keys ?s3" using k1 by (simp add: emotion_keys_def)
  have o: "occ ?s3 emo w = occ s1 emo w" for emo w by (simp add: occ_def)
  show ?thesis
    apply (rule exI[of _ ?s3])
    apply (intro conjI allI)
            apply (rule r)
           apply (rule k)
          apply (simp add: w1)
         apply (simp add: x1)
        apply (simp add: f1)
       apply (simp add: f1)
      apply (simp add: f1)
     apply (simp add: f1)
    apply (simp only: o o1)
    done
qed

lemma count_list_distinct: "distinct xs \<Longrightarrow> count_list xs x = (if x \<in> set xs then 1 else 0)"
  by (induction xs) auto

lemma hits_distinct:
  "\<forall>t \<in> set toks. distinct (emotion_names lx t) \<Longrightarrow>
   hits lx toks emo w = length (filter (\<lambda>t. t = w \<and> emo \<in> set (emotion_names lx t)) toks)"
  unfolding hits_def by (induction toks) (auto simp: count_list_distinct)

subsection \<open>C1: one token occurrence, one global increment, one increment per emotion\<close>

text \<open>
  Claim C1.  For a post that is not skipped, whose tokens each have an emotion collection
  without repeated names (a set) and with every relevant emotion a key of \<^verbatim>\<open>words_dict\<close>,
  \<^verbatim>\<open>process_tweet\<close> returns normally; \<^verbatim>\<open>words_dict['words']\<close> grows by the number of token
  occurrences whose emotion collection is non-empty (one per occurrence, however many
  emotions it has); for each relevant emotion, the counter of each word grows by the number of
  occurrences of that word whose collection names the emotion (one per occurrence and
  emotion); counters under other emotion names do not change.
\<close>

theorem process_tweet_counts_each_match_once:
  assumes "emotion_keys s"
    and "skipped a valid_users t = Inr False"
    and "\<forall>tok \<in> set (tokenize lx (full_text t)). distinct (emotion_names lx tok)"
  shows "\<exists>s'. process_tweet lx a valid_users t s = Inr s' \<and>
           wd_words s' = wd_words s +
             int (length (filter (\<lambda>tok. getEmotionsOfWord lx tok \<noteq> [])
                            (tokenize lx (full_text t)))) \<and>
           (\<forall>emo \<in> set RELEVANT_EMOTIONS. \<forall>w. occ s' emo w = occ s emo w +
              int (length (filter (\<lambda>tok. tok = w \<and> emo \<in> set (emotion_names lx tok))
                             (tokenize lx (full_text t))))) \<and>
           (\<forall>emo w. emo \<notin> set RELEVANT_EMOTIONS \<longrightarrow> occ s' emo w = occ s emo w)"
proof -
  from process_tweet_effect[OF assms(1,2), of lx]
  obtain s' where r: "process_tweet lx a valid_users t s = Inr s'"
    and w: "wd_words s' = wd_words s + int (matched lx (tokenize lx (full_text t)))"
    and o: "\<And>emo w. occ s' emo w = occ s emo w +
              (if emo \<in> set RELEVANT_EMOTIONS
               then int (hits lx (tokenize lx (full_text t)) emo w) else 0)"
    by blast
  have o1: "\<forall>emo \<in> set RELEVANT_EMOTIONS. \<forall>w. occ s' emo w = occ s emo w +
              int (length (filter (\<lambda>tok. tok = w \<and> emo \<in> set (emotion_names lx tok))
                             (tokenize lx (full_text t))))"
    using hits_distinct[OF assms(3)] by (simp add: o)
  have o2: "\<forall>emo w. emo \<notin> set RELEVANT_EMOTIONS \<longrightarrow> occ s' emo w = occ s emo w"
    by (simp add: o)
  from r w o1 o2 show ?thesis unfolding matched_def by blast
qed

lemma ex_tokens: "tokenize ex_lexicon (full_text ex_tweet) = [''happy'', ''grim'', ''day'', ''happy'']"
  by (simp add: ex_lexicon_def ex_tweet_def)

lemma ex_keys: "emotion_keys (init_words_dict initial_state)"
  by (simp add: emotion_keys_def init_words_dict_def initial_state_def RELEVANT_EMOTIONS_def)

theorem process_tweet_counts_each_match_once_witness:
  "emotion_keys (init_words_dict initial_state) \<and>
   skipped ex_args None ex_tweet = Inr False \<and>
   list_all (\<lambda>tok. distinct (emotion_names ex_lexicon tok))
     (tokenize ex_lexicon (full_text ex_tweet)) \<and>
   (\<exists>s'. process_tweet ex_lexicon ex_args None ex_tweet (init_words_dict initial_state) = Inr s' \<and>
      wd_words s' = 3 \<and>
      occ s' ''joy'' ''happy'' = 2 \<and> occ s' ''positive'' ''happy'' = 2 \<and>
      occ s' ''trust'' ''happy'' = 2 \<and> occ s' ''sadness'' ''grim'' = 1 \<and>
      occ s' ''joy'' ''grim'' = 0 \<and> occ s' ''joy'' ''day'' = 0)"
proof -
  have h1: "emotion_keys (init_words_dict initial_state)" by (rule ex_keys)
  have h2: "skipped ex_args None ex_tweet = Inr False"
    by (simp add: skipped_def ex_args_def)
  have h3: "\<forall>tok \<in> set (tokenize ex_lexicon (full_text ex_tweet)). distinct (emotion_names ex_lexicon tok)"
    unfolding ex_tokens by (simp add: emotion_names_def ex_lexicon_def)
  have z: "occ (init_words_dict initial_state) emo w = 0" for emo w
    by (simp add: occ_def init_words_dict_def initial_state_def RELEVANT_EMOTIONS_def)
  have rel: "''joy'' \<in> set RELEVANT_EMOTIONS" "''positive'' \<in> set RELEVANT_EMOTIONS"
    "''trust'' \<in> set RELEVANT_EMOTIONS" "''sadness'' \<in> set RELEVANT_EMOTIONS"
    by (simp_all add: RELEVANT_EMOTIONS_def)
  from process_tweet_counts_each_match_once[OF h1 h2 h3]
  obtain s' where r: "process_tweet ex_lexicon ex_args None ex_tweet (init_words_dict initial_state) = Inr s'"
    and w: "wd_words s' = wd_words (init_words_dict initial_state) +
             int (length (filter (\<lambda>tok. getEmotionsOfWord ex_lexicon tok \<noteq> [])
                            (tokenize ex_lexicon (full_text ex_tweet))))"
    and o: "\<forall>emo \<in> set RELEVANT_EMOTIONS. \<forall>w. occ s' emo w = occ (init_words_dict initial_state) emo w +
              int (length (filter (\<lambda>tok. tok = w \<and> emo \<in> set (emotion_names ex_lexicon tok))
                             (tokenize ex_lexicon (full_text ex_tweet))))"
    by blast
  have w': "wd_words s' = 3"
    using w unfolding ex_tokens by (simp add: ex_lexicon_def init_words_dict_def initial_state_def)
  have o': "occ s' ''joy'' ''happy'' = 2" "occ s' ''positive'' ''happy'' = 2"
      "occ s' ''trust'' ''happy'' = 2" "occ s' ''sadness'' ''grim'' = 1"
      "occ s' ''joy'' ''grim'' = 0" "occ s' ''joy'' ''day'' = 0"
    using o rel unfolding ex_tokens z by (simp_all add: emotion_names_def ex_lexicon_def)
  have h3': "list_all (\<lambda>tok. distinct (emotion_names ex_lexicon tok))
     (tokenize ex_lexicon (full_text ex_tweet))"
    using h3 by (simp add: list_all_iff)
  from h1 h2 h3' r w' o' show ?thesis by blast
qed

subsection \<open>C8: a non-positive \<^verbatim>\<open>--n-words\<close> ends the run before any work\<close>

text \<open>
  Claim C8.  When \<^verbatim>\<open>args.n_words\<close> is zero or negative, \<^verbatim>\<open>main\<close> logs the configuration
  error and exits with status 1 before anything else: no post is taken from the dump, every
  counter is zero, \<^verbatim>\<open>words_dict\<close> has not been set up, and neither the ranked file nor the
  stats file is created.
\<close>

theorem main_exits_on_nonpositive_n_words:
  assumes "n_words a \<le> 0"
  shows "raised (main ev dump basename a) = Some (SystemExit 1) \<and>
         output_file (main ev dump basename a) = None \<and>
         stats_file (main ev dump basename a) = None \<and>
         consumed (final (main ev dump basename a)) = 0 \<and>
         wd_emo (final (main ev dump basename a)) = [] \<and>
         wd_words (final (main ev dump basename a)) = 0 \<and>
         wd_tweets (final (main ev dump basename a)) = 0 \<and>
         st_words (final (main ev dump basename a)) = 0 \<and>
         st_tweets (final (main ev dump basename a)) = 0 \<and>
         logged (final (main ev dump basename a)) =
           [''the parameter --n-words cannot be lower than 1, exiting...'']"
  using assms by (simp add: main_def initial_state_def)

theorem main_exits_on_nonpositive_n_words_witness:
  "n_words (ex_args\<lparr>n_words := 0\<rparr>) \<le> 0 \<and>
   raised (main (ex_env False ([], None) ([], None)) ex_dump ex_basename (ex_args\<lparr>n_words := 0\<rparr>))
     = Some (SystemExit 1) \<and>
   output_file (main (ex_env False ([], None) ([], None)) ex_dump ex_basename (ex_args\<lparr>n_words := 0\<rparr>))
     = None \<and>
   stats_file (main (ex_env False ([], None) ([], None)) ex_dump ex_basename (ex_args\<lparr>n_words := 0\<rparr>))
     = None \<and>
   consumed (final (main (ex_env False ([], None) ([], None)) ex_dump ex_basename
     (ex_args\<lparr>n_words := 0\<rparr>))) = 0"
proof -
  have h: "n_words (ex_args\<lparr>n_words := 0\<rparr>) \<le> 0" by simp
  from main_exits_on_nonpositive_n_words[OF h, of "ex_env False ([], None) ([], None)" ex_dump ex_basename]
  show ?thesis using h by simp
qed

subsection \<open>C7: the fallback to the tabular format\<close>

text \<open>
  Claim C7.  A users file that is not newline-delimited JSON but is a well-formed tabular
  file with one row, \<^verbatim>\<open>id_str = u1\<close>: the fallback loop raises at the row, because
  \<^verbatim>\<open>valid_users\<close> was initialised as a dictionary, the exception is swallowed, and
  \<^verbatim>\<open>get_valid_users\<close> answers \<^verbatim>\<open>None\<close> after logging that the file is in neither format.
  The claim expects the set with the one identifier u1.
\<close>

theorem get_valid_users_csv_fallback_fails:
  "get_valid_users (ex_env True ([], Some ParseError) ([[(''id_str'', ''u1'')]], None)) ''users''
     = (None, [''The file is neither a .json nor a .csv''])"
  by (simp add: get_valid_users_def ex_env_def over_reader_def)

text \<open>
  Whatever the tabular reader yields, once the JSON attempt has failed the result is
  \<^verbatim>\<open>None\<close> or the empty dictionary, which \<^verbatim>\<open>process_lines\<close> both treats as a failure.
\<close>

lemma get_valid_users_after_json_failure:
  assumes "over_reader json_add_users (open_jsonobjects_file ev path) {} = Inl e"
  shows "\<not> truthy (fst (get_valid_users ev path))"
proof (cases "fst (open_csv_file ev path)")
  case Nil
  then show ?thesis using assms
    by (simp add: get_valid_users_def over_reader_def split: option.splits)
next
  case (Cons u us)
  then show ?thesis using assms
    by (simp add: get_valid_users_def over_reader_def)
qed

subsection \<open>C10: an empty allow-list\<close>

text \<open>
  With a users file configured and a falsy result of \<^verbatim>\<open>get_valid_users\<close>,
  \<^verbatim>\<open>process_lines\<close> takes the first post from the dump, logs, and returns \<^verbatim>\<open>None\<close>.
\<close>

lemma process_lines_aborts:
  assumes "users_file a = Some path" and "\<not> truthy (fst (get_valid_users ev path))"
  shows "process_lines ev a (first # rest) s =
           Inr (None, s\<lparr>consumed := consumed s + 1,
                        logged := logged s @ [''Specified a set of users to filter the tweet'']
                          @ snd (get_valid_users ev path)
                          @ [''The file of valid users could not be found\<newline>'']\<rparr>)"
  using assms
  by (cases "get_valid_users ev path") (simp add: process_lines_def load_users_def)

lemma get_valid_users_missing: "\<not> path_exists ev path \<Longrightarrow> get_valid_users ev path = (None, [])"
  by (simp add: get_valid_users_def)

lemma get_valid_users_no_records:
  "path_exists ev path \<Longrightarrow> open_jsonobjects_file ev path = ([], None) \<Longrightarrow>
   get_valid_users ev path = (Some (PySet {}), [])"
  by (simp add: get_valid_users_def over_reader_def)

text \<open>
  Claim C10.  A users file that exists and holds zero JSON records loads as the empty set.
  \<^verbatim>\<open>process_lines\<close> then returns \<^verbatim>\<open>None\<close> after the same two log messages, with the
  counters untouched, and its whole result (value, state and log) equals the result in a
  world where the file does not exist, on every dump.
\<close>

theorem process_lines_empty_allow_list_aborts:
  assumes "users_file a = Some path"
    and "path_exists ev path" and "open_jsonobjects_file ev path = ([], None)"
    and "\<not> path_exists ev' path"
  shows "get_valid_users ev path = (Some (PySet {}), []) \<and>
         get_valid_users ev' path = (None, []) \<and>
         process_lines ev a (first # rest) s =
           Inr (None, s\<lparr>consumed := consumed s + 1,
                        logged := logged s @ [''Specified a set of users to filter the tweet'',
                          ''The file of valid users could not be found\<newline>'']\<rparr>) \<and>
         process_lines ev a dump s = process_lines ev' a dump s"
proof -
  have g: "get_valid_users ev path = (Some (PySet {}), [])"
    using assms(2,3) by (rule get_valid_users_no_records)
  have g': "get_valid_users ev' path = (None, [])"
    using assms(4) by (rule get_valid_users_missing)
  have t: "\<not> truthy (fst (get_valid_users ev path))" by (simp add: g)
  have t': "\<not> truthy (fst (get_valid_users ev' path))" by (simp add: g')
  have p: "process_lines ev a (f # r) s =
           Inr (None, s\<lparr>consumed := consumed s + 1,
                        logged := logged s @ [''Specified a set of users to filter the tweet'',
                          ''The file of valid users could not be found\<newline>'']\<rparr>)" for f r
    using process_lines_aborts[OF assms(1) t, of f r s] by (simp add: g)
  have p': "process_lines ev' a (f # r) s =
           Inr (None, s\<lparr>consumed := consumed s + 1,
                        logged := logged s @ [''Specified a set of users to filter the tweet'',
                          ''The file of valid users could not be found\<newline>'']\<rparr>)" for f r
    using process_lines_aborts[OF assms(1) t', of f r s] by (simp add: g')
  have e: "process_lines ev a dump s = process_lines ev' a dump s"
  proof (cases dump)
    case Nil
    then show ?thesis by (simp add: process_lines_def)
  next
    case (Cons f r)
    then show ?thesis by (simp only: p p')
  qed
  from g g' p e show ?thesis by blast
qed

theorem process_lines_empty_allow_list_aborts_witness:
  "users_file ex_args_users = Some ''users'' \<and>
   path_exists (ex_env True ([], None) ([], None)) ''users'' \<and>
   open_jsonobjects_file (ex_env True ([], None) ([], None)) ''users'' = ([], None) \<and>
   \<not> path_exists (ex_env False ([], None) ([], None)) ''users'' \<and>
   get_valid_users (ex_env True ([], None) ([], None)) ''users'' = (Some (PySet {}), []) \<and>
   process_lines (ex_env True ([], None) ([], None)) ex_args_users ex_dump
       (init_words_dict initial_state)
     = Inr (None, (init_words_dict initial_state)\<lparr>consumed := 1,
          logged := [''Specified a set of users to filter the tweet'',
                     ''The file of valid users could not be found\<newline>'']\<rparr>) \<and>
   process_lines (ex_env True ([], None) ([], None)) ex_args_users ex_dump
       (init_words_dict initial_state)
     = process_lines (ex_env False ([], None) ([], None)) ex_args_users ex_dump
       (init_words_dict initial_state)"
proof -
  have h1: "users_file ex_args_users = Some ''users''"
    by (simp add: ex_args_users_def)
  have h2: "path_exists (ex_env True ([], None) ([], None)) ''users''"
    by (simp add: ex_env_def)
  have h3: "open_jsonobjects_file (ex_env True ([], None) ([], None)) ''users'' = ([], None)"
    by (simp add: ex_env_def)
  have h4: "\<not> path_exists (ex_env False ([], None) ([], None)) ''users''"
    by (simp add: ex_env_def)
  have d: "hd ex_dump # tl ex_dump = ex_dump" by (simp add: ex_dump_def)
  have c: "consumed (init_words_dict initial_state) = 0" "logged (init_words_dict initial_state) = []"
    by (simp_all add: init_words_dict_def initial_state_def)
  note r = process_lines_empty_allow_list_aborts[OF h1 h2 h3 h4, of "hd ex_dump" "tl ex_dump"
      "init_words_dict initial_state" ex_dump, unfolded d c]
  from r have r1: "get_valid_users (ex_env True ([], None) ([], None)) ''users'' = (Some (PySet {}), [])"
    by (rule conjunct1)
  from r have r3: "process_lines (ex_env True ([], None) ([], None)) ex_args_users ex_dump
       (init_words_dict initial_state)
     = Inr (None, (init_words_dict initial_state)\<lparr>consumed := 1,
          logged := [''Specified a set of users to filter the tweet'',
                     ''The file of valid users could not be found\<newline>'']\<rparr>)"
    by simp
  from r have r4: "process_lines (ex_env True ([], None) ([], None)) ex_args_users ex_dump
       (init_words_dict initial_state)
     = process_lines (ex_env False ([], None) ([], None)) ex_args_users ex_dump
       (init_words_dict initial_state)"
    by blast
  from h1 h2 h3 h4 r1 r3 r4 show ?thesis by blast
qed

subsection \<open>C6: a users file that cannot be loaded\<close>

lemma emotion_rows_no_words: "snd item = [] \<Longrightarrow> emotion_rows s n item = []"
  by (simp add: emotion_rows_def sorted_words_def sorted_reverse_def Let_def)

lemma get_first_n_words_no_words:
  assumes "no_words s"
  shows "get_first_n_words s a = ([], None)"
proof -
  have e: "concat (map (emotion_rows s (n_words a)) (wd_emo s)) = []"
    using assms by (auto simp: no_words_def list_all_iff emotion_rows_no_words)
  show ?thesis unfolding get_first_n_words_def e by simp
qed

lemma init_wd_emo:
  "wd_emo (init_words_dict initial_state) = map (\<lambda>emo. (emo, [])) RELEVANT_EMOTIONS"
  by (simp add: init_words_dict_def RELEVANT_EMOTIONS_def)

lemma no_words_init: "no_words (init_words_dict initial_state)"
  by (simp add: no_words_def init_wd_emo list_all_iff)

lemma after_failed_load_fields:
  "wd_emo (after_failed_load ev path) = map (\<lambda>emo. (emo, [])) RELEVANT_EMOTIONS"
  "wd_words (after_failed_load ev path) = 0" "wd_tweets (after_failed_load ev path) = 0"
  "st_words (after_failed_load ev path) = 0" "st_tweets (after_failed_load ev path) = 0"
  "consumed (after_failed_load ev path) = 1"
  "last (logged (after_failed_load ev path)) =
     ''The file of valid users could not be found\<newline>''"
  by (simp_all add: after_failed_load_def init_wd_emo)
     (simp_all add: init_words_dict_def initial_state_def)

text \<open>What \<^verbatim>\<open>main\<close> leaves behind when the users file gives \<^verbatim>\<open>None\<close>.\<close>

lemma main_after_failed_load:
  assumes "0 < n_words a" and "users_file a = Some path"
    and "fst (get_valid_users ev path) = None"
  shows "process_lines ev a (first # rest) (init_words_dict initial_state) =
           Inr (None, after_failed_load ev path)"
    and "main ev (first # rest) basename a =
     (if length (re_split basename) < 5 then
        \<lparr>raised = Some IndexError, final = after_failed_load ev path,
         output_file = None, stats_file = None\<rparr>
      else \<lparr>raised = None, final = after_failed_load ev path, output_file = None,
            stats_file = (if dry_run a then None
               else Some (StatsPath (output_dir_path a) None basename, Some (0, 0)))\<rparr>)"
proof -
  let ?s0 = "init_words_dict initial_state"
  define s1 where "s1 = after_failed_load ev path"
  have t: "\<not> truthy (fst (get_valid_users ev path))" by (simp add: assms(3))
  have c: "consumed ?s0 = 0" "logged ?s0 = []"
    by (simp_all add: init_words_dict_def initial_state_def)
  have p: "process_lines ev a (first # rest) ?s0 = Inr (None, s1)"
    using process_lines_aborts[OF assms(2) t, of first rest ?s0]
    by (simp add: c s1_def after_failed_load_def)
  have nw: "no_words s1"
    using no_words_init by (simp add: no_words_def s1_def after_failed_load_def)
  have g: "get_first_n_words s1 a = ([], None)" by (rule get_first_n_words_no_words[OF nw])
  have z: "st_words s1 = 0" "st_tweets s1 = 0"
    by (simp_all add: s1_def after_failed_load_fields)
  have n: "\<not> n_words a \<le> 0" using assms(1) by simp
  show "process_lines ev a (first # rest) ?s0 = Inr (None, after_failed_load ev path)"
    using p by (simp only: s1_def)
  have "main ev (first # rest) basename a =
     (if length (re_split basename) < 5 then
        \<lparr>raised = Some IndexError, final = s1, output_file = None, stats_file = None\<rparr>
      else \<lparr>raised = None, final = s1, output_file = None,
            stats_file = (if dry_run a then None
               else Some (StatsPath (output_dir_path a) None basename, Some (0, 0)))\<rparr>)"
    by (simp add: main_def Let_def n p g z)
  then show "main ev (first # rest) basename a =
     (if length (re_split basename) < 5 then
        \<lparr>raised = Some IndexError, final = after_failed_load ev path,
         output_file = None, stats_file = None\<rparr>
      else \<lparr>raised = None, final = after_failed_load ev path, output_file = None,
            stats_file = (if dry_run a then None
               else Some (StatsPath (output_dir_path a) None basename, Some (0, 0)))\<rparr>)"
    by (simp only: s1_def)
qed

lemma ex_basename_parts: "\<not> length (re_split ex_basename) < 5"
  by (simp add: ex_basename_def)

text \<open>
  Claim C6, as the code has it.  With a positive \<^verbatim>\<open>n_words\<close>, a users file configured and
  \<^verbatim>\<open>get_valid_users\<close> answering \<^verbatim>\<open>None\<close> (file missing, or neither format parses), on a dump
  with at least one post: \<^verbatim>\<open>process_lines\<close> returns \<^verbatim>\<open>None\<close> before the aggregation loop,
  its last log message being the diagnostic; all counters stay zero, every word dictionary
  stays empty, and no ranked file is created (the header goes to \<^verbatim>\<open>os.devnull\<close>).  The run
  does not stop there: one post has been taken from the dump, \<^verbatim>\<open>main\<close> goes on to the end
  (it raises only \<^verbatim>\<open>IndexError\<close>, for a file name of fewer than five parts) and, outside a
  dry run, writes the stats file, with zero words and zero tweets, under \<^verbatim>\<open>stats/None\<close>.
\<close>

theorem users_file_failure_skips_aggregation:
  assumes "0 < n_words a" and "users_file a = Some path"
    and "fst (get_valid_users ev path) = None"
  shows "process_lines ev a (first # rest) (init_words_dict initial_state) =
           Inr (None, (init_words_dict initial_state)\<lparr>consumed := 1,
                  logged := [''Specified a set of users to filter the tweet'']
                    @ snd (get_valid_users ev path)
                    @ [''The file of valid users could not be found\<newline>'']\<rparr>) \<and>
         output_file (main ev (first # rest) basename a) = None \<and>
         wd_emo (final (main ev (first # rest) basename a)) =
           map (\<lambda>emo. (emo, [])) RELEVANT_EMOTIONS \<and>
         wd_words (final (main ev (first # rest) basename a)) = 0 \<and>
         wd_tweets (final (main ev (first # rest) basename a)) = 0 \<and>
         st_words (final (main ev (first # rest) basename a)) = 0 \<and>
         st_tweets (final (main ev (first # rest) basename a)) = 0 \<and>
         last (logged (final (main ev (first # rest) basename a))) =
           ''The file of valid users could not be found\<newline>'' \<and>
         consumed (final (main ev (first # rest) basename a)) = 1 \<and>
         raised (main ev (first # rest) basename a) =
           (if length (re_split basename) < 5 then Some IndexError else None) \<and>
         stats_file (main ev (first # rest) basename a) =
           (if dry_run a \<or> length (re_split basename) < 5 then None
            else Some (StatsPath (output_dir_path a) None basename, Some (0, 0)))"
proof -
  note m = main_after_failed_load[OF assms, of first rest]
  note f = after_failed_load_fields[of ev path]
  show ?thesis
    apply (intro conjI)
              apply (simp add: m(1) after_failed_load_def)
             apply (simp add: m(2))
            apply (simp add: m(2) f)
           apply (simp add: m(2) f)
          apply (simp add: m(2) f)
         apply (simp add: m(2) f)
        apply (simp add: m(2) f)
       apply (simp add: m(2) f)
      apply (simp add: m(2) f)
     apply (simp add: m(2))
    apply (simp add: m(2))
    done
qed

theorem users_file_failure_skips_aggregation_witness:
  "0 < n_words ex_args_users \<and> users_file ex_args_users = Some ''users'' \<and>
   fst (get_valid_users (ex_env False ([], None) ([], None)) ''users'') = None \<and>
   output_file (main (ex_env False ([], None) ([], None)) ex_dump ex_basename ex_args_users) = None \<and>
   wd_words (final (main (ex_env False ([], None) ([], None)) ex_dump ex_basename ex_args_users)) = 0 \<and>
   wd_tweets (final (main (ex_env False ([], None) ([], None)) ex_dump ex_basename ex_args_users)) = 0 \<and>
   raised (main (ex_env False ([], None) ([], None)) ex_dump ex_basename ex_args_users) = None \<and>
   stats_file (main (ex_env False ([], None) ([], None)) ex_dump ex_basename ex_args_users) =
     Some (StatsPath ''out'' None ex_basename, Some (0, 0))"
proof -
  have h1: "0 < n_words ex_args_users" by (simp add: ex_args_users_def ex_args_def)
  have h2: "users_file ex_args_users = Some ''users''" by (simp add: ex_args_users_def)
  have h3: "fst (get_valid_users (ex_env False ([], None) ([], None)) ''users'') = None"
    by (simp add: get_valid_users_def ex_env_def)
  have d: "hd ex_dump # tl ex_dump = ex_dump" by (simp add: ex_dump_def)
  have a: "\<not> dry_run ex_args_users" "output_dir_path ex_args_users = ''out''"
    by (simp_all add: ex_args_users_def ex_args_def)
  note r = users_file_failure_skips_aggregation[OF h1 h2 h3, of "hd ex_dump" "tl ex_dump" ex_basename,
      unfolded d]
  from r have r1: "output_file (main (ex_env False ([], None) ([], None)) ex_dump ex_basename ex_args_users) = None"
    by blast
  from r have r2: "wd_words (final (main (ex_env False ([], None) ([], None)) ex_dump ex_basename ex_args_users)) = 0"
    by blast
  from r have r3: "wd_tweets (final (main (ex_env False ([], None) ([], None)) ex_dump ex_basename ex_args_users)) = 0"
    by blast
  from r have r4: "stats_file (main (ex_env False ([], None) ([], None)) ex_dump ex_basename ex_args_users) =
     Some (StatsPath ''out'' None ex_basename, Some (0, 0))"
    by (simp add: a ex_basename_parts)
  from r have r5: "raised (main (ex_env False ([], None) ([], None)) ex_dump ex_basename ex_args_users) = None"
    by (simp add: ex_basename_parts)
  from h1 h2 h3 r1 r2 r3 r5 r4 show ?thesis by blast
qed

text \<open>
  The run does not abort, and a file of it is written: with the users file missing,
  \<^verbatim>\<open>main\<close> returns without an exception after taking one post from the dump, and the stats
  file exists.
\<close>

theorem users_file_failure_counterexample:
  "users_file ex_args_users = Some ''users'' \<and>
   fst (get_valid_users (ex_env False ([], None) ([], None)) ''users'') = None \<and>
   raised (main (ex_env False ([], None) ([], None)) ex_dump ex_basename ex_args_users) = None \<and>
   consumed (final (main (ex_env False ([], None) ([], None)) ex_dump ex_basename ex_args_users))
     = 1 \<and>
   stats_file (main (ex_env False ([], None) ([], None)) ex_dump ex_basename ex_args_users) =
     Some (StatsPath ''out'' None ex_basename, Some (0, 0))"
proof -
  have h1: "0 < n_words ex_args_users" by (simp add: ex_args_users_def ex_args_def)
  have h2: "users_file ex_args_users = Some ''users''" by (simp add: ex_args_users_def)
  have h3: "fst (get_valid_users (ex_env False ([], None) ([], None)) ''users'') = None"
    by (simp add: get_valid_users_def ex_env_def)
  have d: "hd ex_dump # tl ex_dump = ex_dump" by (simp add: ex_dump_def)
  have a: "\<not> dry_run ex_args_users" "output_dir_path ex_args_users = ''out''"
    by (simp_all add: ex_args_users_def ex_args_def)
  note m = main_after_failed_load(2)[OF h1 h2 h3, of "hd ex_dump" "tl ex_dump" ex_basename,
      unfolded d]
  have r1: "raised (main (ex_env False ([], None) ([], None)) ex_dump ex_basename ex_args_users) = None"
    by (simp add: m ex_basename_parts)
  have r2: "consumed (final (main (ex_env False ([], None) ([], None)) ex_dump ex_basename ex_args_users)) = 1"
    by (simp add: m ex_basename_parts after_failed_load_fields)
  have r3: "stats_file (main (ex_env False ([], None) ([], None)) ex_dump ex_basename ex_args_users) =
     Some (StatsPath ''out'' None ex_basename, Some (0, 0))"
    by (simp add: m ex_basename_parts a)
  from h2 h3 r1 r2 r3 show ?thesis by blast
qed

subsection \<open>C2: \<^verbatim>\<open>total_posts\<close> counts the posts that pass the filter\<close>

lemma skipped_passes:
  assumes "users_file a = None \<or> valid_users \<noteq> None"
  shows "skipped a valid_users t = Inr (\<not> passes a valid_users t)"
proof (cases "users_file a")
  case None
  then show ?thesis by (simp add: skipped_def passes_def)
next
  case (Some p)
  with assms obtain v where v: "valid_users = Some v" by auto
  show ?thesis using Some v by (cases v) (simp_all add: skipped_def passes_def)
qed

lemma process_tweet_skipped:
  "skipped a valid_users t = Inr True \<Longrightarrow> process_tweet lx a valid_users t s = Inr s"
  by (simp add: process_tweet_def)

lemma matched_append: "matched lx (xs @ ys) = matched lx xs + matched lx ys"
  by (simp add: matched_def)

lemma hits_append: "hits lx (xs @ ys) emo w = hits lx xs emo w + hits lx ys emo w"
  by (simp add: hits_def)

lemma tweets_loop_effect:
  assumes "emotion_keys s" and "users_file a = None \<or> valid_users \<noteq> None"
  shows "\<exists>s'. for_each (process_tweet lx a valid_users) ts s = Inr s' \<and> emotion_keys s' \<and>
           wd_tweets s' = wd_tweets s + int (length (filter (passes a valid_users) ts)) \<and>
           st_tweets s' = st_tweets s + int (length (filter (passes a valid_users) ts)) \<and>
           wd_words s' = wd_words s +
             int (matched lx (all_tokens lx (filter (passes a valid_users) ts))) \<and>
           st_words s' = st_words s +
             int (matched lx (all_tokens lx (filter (passes a valid_users) ts))) \<and>
           logged s' = logged s \<and> consumed s' = consumed s \<and>
           (\<forall>emo w. occ s' emo w = occ s emo w +
              (if emo \<in> set RELEVANT_EMOTIONS
               then int (hits lx (all_tokens lx (filter (passes a valid_users) ts)) emo w)
               else 0))"
  using assms(1)
proof (induction ts arbitrary: s)
  case Nil
  then show ?case by (simp add: all_tokens_def matched_def hits_def)
next
  case (Cons t ts)
  note sk = skipped_passes[OF assms(2), of t]
  show ?case
  proof (cases "passes a valid_users t")
    case False
    then have s1: "process_tweet lx a valid_users t s = Inr s"
      using sk by (simp add: process_tweet_skipped)
    from Cons.IH[OF Cons.prems] obtain s' where
      r: "for_each (process_tweet lx a valid_users) ts s = Inr s'" and
      rest: "emotion_keys s' \<and>
           wd_tweets s' = wd_tweets s + int (length (filter (passes a valid_users) ts)) \<and>
           st_tweets s' = st_tweets s + int (length (filter (passes a valid_users) ts)) \<and>
           wd_words s' = wd_words s +
             int (matched lx (all_tokens lx (filter (passes a valid_users) ts))) \<and>
           st_words s' = st_words s +
             int (matched lx (all_tokens lx (filter (passes a valid_users) ts))) \<and>
           logged s' = logged s \<and> consumed s' = consumed s \<and>
           (\<forall>emo w. occ s' emo w = occ s emo w +
              (if emo \<in> set RELEVANT_EMOTIONS
               then int (hits lx (all_tokens lx (filter (passes a valid_users) ts)) emo w)
               else 0))"
      by blast
    have "for_each (process_tweet lx a valid_users) (t # ts) s = Inr s'"
      using s1 r by simp
    moreover have "filter (passes a valid_users) (t # ts) = filter (passes a valid_users) ts"
      using False by simp
    ultimately show ?thesis using rest by auto
  next
    case True
    then have p: "skipped a valid_users t = Inr False" using sk by simp
    let ?toks = "tokenize lx (full_text t)"
    let ?P = "filter (passes a valid_users) ts"
    from process_tweet_effect[OF Cons.prems p, of lx]
    obtain s1 where s1: "process_tweet lx a valid_users t s = Inr s1" and k1: "emotion_keys s1"
      and w1: "wd_words s1 = wd_words s + int (matched lx ?toks)"
      and x1: "st_words s1 = st_words s + int (matched lx ?toks)"
      and t1: "wd_tweets s1 = wd_tweets s + 1" "st_tweets s1 = st_tweets s + 1"
      and f1: "logged s1 = logged s" "consumed s1 = consumed s"
      and o1: "\<And>emo w. occ s1 emo w = occ s emo w +
              (if emo \<in> set RELEVANT_EMOTIONS then int (hits lx ?toks emo w) else 0)"
      by blast
    from Cons.IH[OF k1] obtain s2 where
      s2: "for_each (process_tweet lx a valid_users) ts s1 = Inr s2" and k2: "emotion_keys s2"
      and t2: "wd_tweets s2 = wd_tweets s1 + int (length ?P)"
              "st_tweets s2 = st_tweets s1 + int (length ?P)"
      and w2: "wd_words s2 = wd_words s1 + int (matched lx (all_tokens lx ?P))"
      and x2: "st_words s2 = st_words s1 + int (matched lx (all_tokens lx ?P))"
      and f2: "logged s2 = logged s1" "consumed s2 = consumed s1"
      and o2: "\<And>emo w. occ s2 emo w = occ s1 emo w +
              (if emo \<in> set RELEVANT_EMOTIONS then int (hits lx (all_tokens lx ?P) emo w) else 0)"
      by blast
    have fl: "filter (passes a valid_users) (t # ts) = t # ?P" using True by simp
    have at: "all_tokens lx (t # ?P) = ?toks @ all_tokens lx ?P" by (simp add: all_tokens_def)
    have r: "for_each (process_tweet lx a valid_users) (t # ts) s = Inr s2" using s1 s2 by simp
    have o: "occ s2 emo w = occ s emo w +
              (if emo \<in> set RELEVANT_EMOTIONS
               then int (hits lx (all_tokens lx (filter (passes a valid_users) (t # ts))) emo w)
               else 0)" for emo w
      unfolding fl at hits_append by (simp add: o2 o1)
    show ?thesis
      apply (rule exI[of _ s2])
      apply (intro conjI allI)
              apply (rule r)
             apply (rule k2)
            apply (simp add: True t1 t2)
           apply (simp add: True t1 t2)
          apply (simp add: True at matched_append w1 w2)
         apply (simp add: True at matched_append x1 x2)
        apply (simp add: f1 f2)
       apply (simp add: f1 f2)
      apply (rule o)
      done
  qed
qed

lemma load_users_fst: "fst (load_users ev a s) = loaded_users ev a"
  by (simp add: load_users_def loaded_users_def split: option.splits prod.splits)

lemma load_users_snd:
  "wd_emo (snd (load_users ev a s)) = wd_emo s"
  "wd_words (snd (load_users ev a s)) = wd_words s"
  "wd_tweets (snd (load_users ev a s)) = wd_tweets s"
  "st_words (snd (load_users ev a s)) = st_words s"
  "st_tweets (snd (load_users ev a s)) = st_tweets s"
  by (simp_all add: load_users_def split: option.splits prod.splits)

lemma truthy_not_None: "truthy v \<Longrightarrow> v \<noteq> None"
  by (cases v) simp_all

lemma process_lines_runs:
  assumes "emotion_keys s"
    and "users_file a = None \<or> truthy (loaded_users ev a)"
    and "initEmotionLexicon ev (lang first) = Some lx"
  shows "\<exists>s1 s2. process_lines ev a (first # rest) s = Inr (Some (lang first), s2) \<and>
           wd_emo s1 = wd_emo s \<and> wd_words s1 = wd_words s \<and> wd_tweets s1 = wd_tweets s \<and>
           st_words s1 = st_words s \<and> st_tweets s1 = st_tweets s \<and>
           for_each (process_tweet lx a (loaded_users ev a)) (first # rest) s1
             = Inr (s2\<lparr>consumed := consumed s2 - length rest\<rparr>)  \<and>
           wd_emo s2 = wd_emo (s2\<lparr>consumed := consumed s2 - length rest\<rparr>)"
proof -
  let ?vu = "loaded_users ev a"
  define s0 where "s0 = s\<lparr>consumed := consumed s + 1\<rparr>"
  define s1 where "s1 = snd (load_users ev a s0)"
  have lu: "load_users ev a s0 = (?vu, s1)"
    using load_users_fst[of ev a s0] by (simp add: prod_eq_iff s1_def)
  have f1: "wd_emo s1 = wd_emo s" "wd_words s1 = wd_words s" "wd_tweets s1 = wd_tweets s"
    "st_words s1 = st_words s" "st_tweets s1 = st_tweets s"
    by (simp_all add: s1_def load_users_snd) (simp_all add: s0_def)
  have k1: "emotion_keys s1" using assms(1) by (simp add: emotion_keys_def f1)
  have nn: "users_file a = None \<or> ?vu \<noteq> None" using assms(2) truthy_not_None by blast
  from tweets_loop_effect[OF k1 nn, of lx "first # rest"]
  obtain s' where r: "for_each (process_tweet lx a ?vu) (first # rest) s1 = Inr s'" by blast
  have c: "(users_file a \<noteq> None \<and> \<not> truthy ?vu) = False" using assms(2) by auto
  have p: "process_lines ev a (first # rest) s =
             Inr (Some (lang first), s'\<lparr>consumed := consumed s' + length rest\<rparr>)"
    apply (simp only: process_lines_def list.case)
    apply (fold s0_def)
    apply (simp only: Let_def lu prod.case c if_False assms(3) option.case r sum.case)
    done
  show ?thesis
    apply (rule exI[of _ s1])
    apply (rule exI[of _ "s'\<lparr>consumed := consumed s' + length rest\<rparr>"])
    apply (intro conjI)
           apply (rule p)
          apply (simp_all add: f1 r del: for_each.simps)
    done
qed

text \<open>
  Claim C2.  When aggregation runs (a post to start from, a lexicon for its language, and
  either no users file or a loaded non-empty filter) \<^verbatim>\<open>process_lines\<close> returns the language,
  and \<^verbatim>\<open>words_dict['tweets']\<close> and the stats counter have grown by the number of posts of
  the dump that pass the filter; without a users file every post passes.  A post that does
  not pass leaves the whole state as it was; a post that passes adds exactly 1 to
  \<^verbatim>\<open>words_dict['tweets']\<close>, whatever its tokens are, and as many matched words as it has
  tokens with emotions (none, when no token matches).
\<close>

theorem process_lines_counts_passing_posts:
  assumes "emotion_keys s"
    and "users_file a = None \<or> truthy (loaded_users ev a)"
    and "initEmotionLexicon ev (lang first) = Some lx"
  shows "(\<exists>s'. process_lines ev a (first # rest) s = Inr (Some (lang first), s') \<and>
            wd_tweets s' = wd_tweets s +
              int (length (filter (passes a (loaded_users ev a)) (first # rest))) \<and>
            st_tweets s' = st_tweets s +
              int (length (filter (passes a (loaded_users ev a)) (first # rest)))) \<and>
         (users_file a = None \<longrightarrow>
            filter (passes a (loaded_users ev a)) (first # rest) = first # rest) \<and>
         (\<forall>t s0. \<not> passes a (loaded_users ev a) t \<longrightarrow>
            process_tweet lx a (loaded_users ev a) t s0 = Inr s0) \<and>
         (\<forall>t s0. passes a (loaded_users ev a) t \<and> emotion_keys s0 \<longrightarrow>
            (\<exists>s1. process_tweet lx a (loaded_users ev a) t s0 = Inr s1 \<and>
                  wd_tweets s1 = wd_tweets s0 + 1 \<and>
                  wd_words s1 = wd_words s0 + int (matched lx (tokenize lx (full_text t)))))"
proof -
  let ?vu = "loaded_users ev a"
  have nn: "users_file a = None \<or> ?vu \<noteq> None" using assms(2) truthy_not_None by blast
  from process_lines_runs[OF assms, of rest]
  obtain s1 s2 where p: "process_lines ev a (first # rest) s = Inr (Some (lang first), s2)"
    and e1: "wd_emo s1 = wd_emo s" and t1: "wd_tweets s1 = wd_tweets s" "st_tweets s1 = st_tweets s"
    and r: "for_each (process_tweet lx a ?vu) (first # rest) s1
             = Inr (s2\<lparr>consumed := consumed s2 - length rest\<rparr>)"
    by blast
  have k1: "emotion_keys s1" using assms(1) e1 by (simp add: emotion_keys_def)
  from tweets_loop_effect[OF k1 nn, of lx "first # rest"] r
  have t2: "wd_tweets (s2\<lparr>consumed := consumed s2 - length rest\<rparr>) =
              wd_tweets s1 + int (length (filter (passes a ?vu) (first # rest)))"
       "st_tweets (s2\<lparr>consumed := consumed s2 - length rest\<rparr>) =
              st_tweets s1 + int (length (filter (passes a ?vu) (first # rest)))"
    by auto
  have A: "\<exists>s'. process_lines ev a (first # rest) s = Inr (Some (lang first), s') \<and>
            wd_tweets s' = wd_tweets s + int (length (filter (passes a ?vu) (first # rest))) \<and>
            st_tweets s' = st_tweets s + int (length (filter (passes a ?vu) (first # rest)))"
    using p t1 t2 by (intro exI[of _ s2]) simp
  have B: "users_file a = None \<longrightarrow> filter (passes a ?vu) (first # rest) = first # rest"
    by (auto simp: passes_def)
  have C: "\<forall>t s0. \<not> passes a ?vu t \<longrightarrow> process_tweet lx a ?vu t s0 = Inr s0"
    using skipped_passes[OF nn] by (simp add: process_tweet_skipped)
  have D: "\<forall>t s0. passes a ?vu t \<and> emotion_keys s0 \<longrightarrow>
            (\<exists>s1. process_tweet lx a ?vu t s0 = Inr s1 \<and> wd_tweets s1 = wd_tweets s0 + 1 \<and>
                  wd_words s1 = wd_words s0 + int (matched lx (tokenize lx (full_text t))))"
  proof (intro allI impI)
    fix t s0 assume h: "passes a ?vu t \<and> emotion_keys s0"
    then have sk: "skipped a ?vu t = Inr False" using skipped_passes[OF nn, of t] by simp
    from process_tweet_effect[OF _ sk, of s0 lx] h
    show "\<exists>s1. process_tweet lx a ?vu t s0 = Inr s1 \<and> wd_tweets s1 = wd_tweets s0 + 1 \<and>
                  wd_words s1 = wd_words s0 + int (matched lx (tokenize lx (full_text t)))"
      by blast
  qed
  from A B C D show ?thesis by blast
qed

lemma ex_loaded_users:
  "loaded_users (ex_env True ([[(''id_str'', ''u1'')]], None) ([], None)) ex_args_users
     = Some (PySet {''u1''})"
  by (simp add: loaded_users_def ex_args_users_def get_valid_users_def over_reader_def ex_env_def)

theorem process_lines_counts_passing_posts_witness:
  "emotion_keys (init_words_dict initial_state) \<and>
   truthy (loaded_users (ex_env True ([[(''id_str'', ''u1'')]], None) ([], None)) ex_args_users) \<and>
   initEmotionLexicon (ex_env True ([[(''id_str'', ''u1'')]], None) ([], None)) (lang ex_tweet)
     = Some ex_lexicon \<and>
   (\<exists>s'. process_lines (ex_env True ([[(''id_str'', ''u1'')]], None) ([], None)) ex_args_users
            ex_dump (init_words_dict initial_state) = Inr (Some ''en'', s') \<and>
         wd_tweets s' = 2 \<and> st_tweets s' = 2)"
proof -
  let ?ev = "ex_env True ([[(''id_str'', ''u1'')]], None) ([], None)"
  have h1: "emotion_keys (init_words_dict initial_state)" by (rule ex_keys)
  have h2: "truthy (loaded_users ?ev ex_args_users)" by (simp add: ex_loaded_users)
  have h2': "users_file ex_args_users = None \<or> truthy (loaded_users ?ev ex_args_users)"
    using h2 by simp
  have h3: "initEmotionLexicon ?ev (lang ex_tweet) = Some ex_lexicon"
    by (simp add: ex_env_def ex_tweet_def)
  have d: "ex_tweet # tl ex_dump = ex_dump" by (simp add: ex_dump_def)
  have l: "lang ex_tweet = ''en''" by (simp add: ex_tweet_def)
  have n: "length (filter (passes ex_args_users (Some (PySet {''u1''}))) ex_dump) = 2"
    by (simp add: passes_def ex_args_users_def ex_dump_def ex_tweet_def)
  have z: "wd_tweets (init_words_dict initial_state) = 0" "st_tweets (init_words_dict initial_state) = 0"
    by (simp_all add: init_words_dict_def initial_state_def)
  from process_lines_counts_passing_posts[OF h1 h2' h3, of "tl ex_dump"]
  have "\<exists>s'. process_lines ?ev ex_args_users ex_dump (init_words_dict initial_state)
             = Inr (Some ''en'', s') \<and> wd_tweets s' = 2 \<and> st_tweets s' = 2"
    unfolding d l ex_loaded_users n z by simp
  with h1 h2 h3 show ?thesis by blast
qed

subsection \<open>C4: the ratios of a row\<close>

lemma set_sorted_reverse: "set (sorted_reverse ws) = set ws"
  by (simp add: sorted_reverse_def)

lemma length_sorted_words: "length (sorted_words ws) = length ws"
  by (simp add: sorted_words_def sorted_reverse_def)

lemma set_sorted_words: "set (sorted_words ws) = fst ` set ws"
  by (simp add: sorted_words_def set_sorted_reverse)



lemma yield_until_raise_all: "yield_until_raise (map Inr rs) = (rs, None)"
  by (induction rs) simp_all






subsection \<open>C3: the number of rows of an emotion\<close>

lemma make_row_ok:
  assumes "wd_words s \<noteq> 0" and "wd_tweets s \<noteq> 0"
    and "list_all (\<lambda>kv. \<bar>snd kv\<bar> < 2 ^ 1023) ws" and "w \<in> fst ` set ws"
  shows "make_row s emo ws w = Inr (ranked_row s emo ws w)"
proof -
  from map_of_keys[OF assms(4)] obtain c where c: "map_of ws w = Some c" by blast
  then have "(w, c) \<in> set ws" by (rule map_of_SomeD)
  then have small: "\<bar>c\<bar> < 2 ^ 1023" using assms(3) by (auto simp: list_all_iff)
  from py_truediv_defined[OF assms(1) small] obtain v1
    where v1: "py_truediv c (wd_words s) = Inr v1" by blast
  from py_truediv_defined[OF assms(2) small] obtain v2
    where v2: "py_truediv c (wd_tweets s) = Inr v2" by blast
  show ?thesis using c v1 v2 by (simp add: make_row_def ranked_row_def quotient_def)
qed

lemma take_n_words:
  "take (nat (if int (length xs) \<ge> n then n else int (length xs))) xs = take (nat n) xs"
  by simp

lemma emotion_rows_ok:
  assumes "wd_words s \<noteq> 0" and "wd_tweets s \<noteq> 0"
    and "list_all (\<lambda>kv. \<bar>snd kv\<bar> < 2 ^ 1023) (snd item)"
  shows "emotion_rows s n item = map Inr (ranked s n item)"
proof (cases "fst item \<in> set RELEVANT_EMOTIONS")
  case False
  then show ?thesis by (simp add: emotion_rows_def ranked_def)
next
  case True
  have "map (make_row s (fst item) (snd item)) (take (nat n) (sorted_words (snd item))) =
        map (\<lambda>w. Inr (ranked_row s (fst item) (snd item) w)) (take (nat n) (sorted_words (snd item)))"
  proof (rule map_cong[OF refl])
    fix w assume "w \<in> set (take (nat n) (sorted_words (snd item)))"
    then have "w \<in> fst ` set (snd item)"
      using set_take_subset[of "nat n" "sorted_words (snd item)"] set_sorted_words[of "snd item"]
      by blast
    then show "make_row s (fst item) (snd item) w = Inr (ranked_row s (fst item) (snd item) w)"
      by (rule make_row_ok[OF assms])
  qed
  then show ?thesis using True
    by (simp add: emotion_rows_def ranked_def Let_def take_n_words del: take_all_iff)
qed

lemma ranked_no_words: "snd item = [] \<Longrightarrow> ranked s n item = []"
  by (simp add: ranked_def sorted_words_def sorted_reverse_def)

lemma get_first_n_words_ok:
  assumes "rankable s"
  shows "get_first_n_words s a = (concat (map (ranked s (n_words a)) (wd_emo s)), None)"
proof (cases "no_words s")
  case True
  then have "concat (map (ranked s (n_words a)) (wd_emo s)) = []"
    by (auto simp: no_words_def list_all_iff ranked_no_words)
  then show ?thesis using get_first_n_words_no_words[OF True, of a] by simp
next
  case False
  with assms have nz: "wd_words s \<noteq> 0" "wd_tweets s \<noteq> 0" and sm: "small_counts s"
    by (simp_all add: rankable_def)
  have "emotion_rows s (n_words a) item = map Inr (ranked s (n_words a) item)"
    if "item \<in> set (wd_emo s)" for item
    using that sm by (intro emotion_rows_ok[OF nz]) (simp add: small_counts_def list_all_iff)
  then have "map (emotion_rows s (n_words a)) (wd_emo s) =
        map (map Inr) (map (ranked s (n_words a)) (wd_emo s))"
    by simp
  then have "concat (map (emotion_rows s (n_words a)) (wd_emo s)) =
        map Inr (concat (map (ranked s (n_words a)) (wd_emo s)))"
    by (simp only: map_concat)
  then show ?thesis by (simp only: get_first_n_words_def yield_until_raise_all)
qed

lemma ranked_emotion: "r \<in> set (ranked s n item) \<Longrightarrow> emotion r = fst item"
  by (auto simp: ranked_def ranked_row_def Let_def split: if_splits)

lemma filter_ranked_other:
  "fst item \<noteq> e \<Longrightarrow> filter (\<lambda>r. emotion r = e) (ranked s n item) = []"
  by (auto simp: filter_empty_conv dest: ranked_emotion)

lemma filter_ranked_same:
  "fst item = e \<Longrightarrow> filter (\<lambda>r. emotion r = e) (ranked s n item) = ranked s n item"
  by (auto simp: filter_id_conv dest: ranked_emotion)

lemma length_ranked:
  "fst item \<in> set RELEVANT_EMOTIONS \<Longrightarrow>
   length (ranked s n item) = min (nat n) (length (snd item))"
  by (simp add: ranked_def length_sorted_words min.commute)

lemma rows_of_absent_emotion:
  "e \<notin> fst ` set items \<Longrightarrow>
   filter (\<lambda>r. emotion r = e) (concat (map (ranked s n) items)) = []"
proof (induction items)
  case Nil
  then show ?case by simp
next
  case (Cons item items)
  then have "fst item \<noteq> e" by auto
  then show ?case using Cons by (simp add: filter_ranked_other)
qed

lemma rows_of_emotion:
  assumes "distinct (map fst items)" and "(e, ws) \<in> set items"
    and "e \<in> set RELEVANT_EMOTIONS"
  shows "length (filter (\<lambda>r. emotion r = e) (concat (map (ranked s n) items)))
           = min (nat n) (length ws)"
  using assms(1,2)
proof (induction items)
  case Nil
  then show ?case by simp
next
  case (Cons item items)
  show ?case
  proof (cases "item = (e, ws)")
    case True
    then have "e \<notin> fst ` set items" using Cons.prems(1) by auto
    then have "filter (\<lambda>r. emotion r = e) (concat (map (ranked s n) items)) = []"
      by (rule rows_of_absent_emotion)
    moreover have "filter (\<lambda>r. emotion r = e) (ranked s n item) = ranked s n item"
      using True by (simp add: filter_ranked_same)
    moreover have "length (ranked s n item) = min (nat n) (length ws)"
      using True assms(3) by (simp add: length_ranked)
    ultimately show ?thesis by simp
  next
    case False
    then have in_rest: "(e, ws) \<in> set items" using Cons.prems(2) by auto
    then have "e \<in> fst ` set items" by force
    then have "fst item \<noteq> e" using Cons.prems(1) by auto
    then have "filter (\<lambda>r. emotion r = e) (ranked s n item) = []"
      by (rule filter_ranked_other)
    moreover have "length (filter (\<lambda>r. emotion r = e) (concat (map (ranked s n) items)))
           = min (nat n) (length ws)"
      using Cons.IH Cons.prems(1) in_rest by simp
    ultimately show ?thesis by simp
  qed
qed

text \<open>
  Claim C3.  For a relevant emotion that is a key of \<^verbatim>\<open>words_dict\<close> (each key once, as in a
  dictionary) and counters the ranker can divide (no word recorded, or both totals non-zero
  and every count below \<open>2 ^ 1023\<close>), \<^verbatim>\<open>get_first_n_words\<close> finishes without an exception
  and yields, for that emotion, exactly as many rows as the smaller of \<^verbatim>\<open>n_words\<close> and the
  number of distinct words recorded for the emotion.
\<close>

theorem get_first_n_words_row_count:
  assumes "distinct (map fst (wd_emo s))" and "(e, ws) \<in> set (wd_emo s)"
    and "distinct (map fst ws)" and "e \<in> set RELEVANT_EMOTIONS"
    and "rankable s"
  shows "snd (get_first_n_words s a) = None \<and>
         length (filter (\<lambda>r. emotion r = e) (fst (get_first_n_words s a)))
           = min (nat (n_words a)) (card (fst ` set ws))"
proof -
  have c: "card (fst ` set ws) = length ws"
    using assms(3) distinct_card[of "map fst ws"] by simp
  show ?thesis
    unfolding get_first_n_words_ok[OF assms(5)] c
    using rows_of_emotion[OF assms(1,2,4)] by simp
qed

theorem get_first_n_words_row_count_witness:
  "distinct (map fst (wd_emo ex_counts)) \<and>
   (''joy'', [(''happy'', 5), (''fun'', 3)]) \<in> set (wd_emo ex_counts) \<and>
   distinct (map fst [(''happy'', 5::int), (''fun'', 3)]) \<and>
   ''joy'' \<in> set RELEVANT_EMOTIONS \<and> rankable ex_counts \<and>
   snd (get_first_n_words ex_counts (ex_args\<lparr>n_words := 30\<rparr>)) = None \<and>
   length (filter (\<lambda>r. emotion r = ''joy'')
     (fst (get_first_n_words ex_counts (ex_args\<lparr>n_words := 30\<rparr>)))) = 2"
proof -
  have h1: "distinct (map fst (wd_emo ex_counts))" by (simp add: ex_counts_def)
  have h2: "(''joy'', [(''happy'', 5), (''fun'', 3)]) \<in> set (wd_emo ex_counts)"
    by (simp add: ex_counts_def)
  have h3: "distinct (map fst [(''happy'', 5::int), (''fun'', 3)])" by simp
  have h4: "''joy'' \<in> set RELEVANT_EMOTIONS" by (simp add: RELEVANT_EMOTIONS_def)
  have h5: "rankable ex_counts" by (simp add: rankable_def small_counts_def ex_counts_def)
  have k: "card (fst ` set [(''happy'', 5::int), (''fun'', 3)]) = 2" by simp
  have m: "min (nat (n_words (ex_args\<lparr>n_words := 30\<rparr>))) 2 = 2" by simp
  from get_first_n_words_row_count[OF h1 h2 h3 h4 h5, of "ex_args\<lparr>n_words := 30\<rparr>"]
  have "snd (get_first_n_words ex_counts (ex_args\<lparr>n_words := 30\<rparr>)) = None"
    and "length (filter (\<lambda>r. emotion r = ''joy'')
     (fst (get_first_n_words ex_counts (ex_args\<lparr>n_words := 30\<rparr>)))) = 2"
    unfolding k m by blast+
  with h1 h2 h3 h4 h5 show ?thesis by blast
qed

subsection \<open>C5: the order of the rows\<close>

lemma mset_sorted_reverse: "mset (sorted_reverse ws) = mset ws"
  by (simp add: sorted_reverse_def)

lemma sorted_reverse_descending: "sorted_wrt (\<lambda>x y. snd y \<le> snd x) (sorted_reverse ws)"
proof -
  have "sorted (map snd (sort_key snd (rev ws)))" by simp
  then have "sorted_wrt (\<lambda>x y. snd x \<le> snd y) (sort_key snd (rev ws))"
    by (simp add: sorted_map)
  then show ?thesis by (simp add: sorted_reverse_def sorted_wrt_rev)
qed

lemma sorted_reverse_stable:
  "filter (\<lambda>kv. snd kv = c) (sorted_reverse ws) = filter (\<lambda>kv. snd kv = c) ws"
proof -
  have "filter (\<lambda>kv. snd kv = c) (sorted_reverse ws)
          = rev (filter (\<lambda>kv. snd kv = c) (sort_key snd (rev ws)))"
    by (simp add: sorted_reverse_def rev_filter)
  also have "\<dots> = rev (filter (\<lambda>kv. snd kv = c) (rev ws))"
    by (simp only: sort_key_stable)
  also have "\<dots> = filter (\<lambda>kv. snd kv = c) ws"
    by (simp add: rev_filter)
  finally show ?thesis .
qed

lemma sorted_reverse_unique:
  assumes "mset ys = mset ws"
    and "sorted_wrt (\<lambda>x y. snd y \<le> snd x) ys"
    and "\<forall>c. filter (\<lambda>kv. snd kv = c) ys = filter (\<lambda>kv. snd kv = c) ws"
  shows "sorted_reverse ws = ys"
proof -
  have 1: "mset (rev ys) = mset (rev ws)" using assms(1) by simp
  have 2: "filter (\<lambda>x. snd k = snd x) (rev ys) = filter (\<lambda>x. snd k = snd x) (rev ws)" for k
  proof -
    have e: "(\<lambda>x. snd k = snd x) = (\<lambda>kv. snd kv = snd k)" by auto
    show ?thesis unfolding e using assms(3) by (simp add: rev_filter[symmetric])
  qed
  have "sorted_wrt (\<lambda>x y. snd x \<le> snd y) (rev ys)"
    using assms(2) by (simp add: sorted_wrt_rev)
  then have 3: "sorted (map snd (rev ys))" by (simp add: sorted_map)
  have "sort_key snd (rev ws) = rev ys"
    by (rule properties_for_sort_key[OF 1 2 3])
  then show ?thesis by (simp add: sorted_reverse_def)
qed

lemma ranked_words:
  "map (\<lambda>r. (emotion r, word r)) (ranked s n item) =
     (if fst item \<in> set RELEVANT_EMOTIONS
      then map (Pair (fst item)) (take (nat n) (sorted_words (snd item)))
      else [])"
  by (simp add: ranked_def ranked_row_def Let_def comp_def)

text \<open>
  Claim C5.  The order \<^verbatim>\<open>sorted(..., reverse=True)\<close> gives the words of an emotion is fixed
  by the dictionary alone: it is the one arrangement of its items that is descending in the
  count and keeps items of equal count in the order of the dictionary (first counted,
  first ranked).  On counters the ranker can divide, the emotions and words of the rows that
  \<^verbatim>\<open>get_first_n_words\<close> yields are the first \<^verbatim>\<open>n_words\<close> items of that order, emotion after
  emotion in the order of the keys of \<^verbatim>\<open>words_dict\<close>.
\<close>

theorem ranking_is_deterministic:
  "(sorted_reverse ws = ys \<longleftrightarrow>
      mset ys = mset ws \<and> sorted_wrt (\<lambda>x y. snd y \<le> snd x) ys \<and>
      (\<forall>c. filter (\<lambda>kv. snd kv = c) ys = filter (\<lambda>kv. snd kv = c) ws)) \<and>
   (rankable s \<longrightarrow>
      snd (get_first_n_words s a) = None \<and>
      map (\<lambda>r. (emotion r, word r)) (fst (get_first_n_words s a)) =
        concat (map (\<lambda>item. if fst item \<in> set RELEVANT_EMOTIONS
                             then map (Pair (fst item))
                                    (take (nat (n_words a)) (map fst (sorted_reverse (snd item))))
                             else [])
                  (wd_emo s)))"
proof (intro conjI impI)
  show "sorted_reverse ws = ys \<longleftrightarrow>
      mset ys = mset ws \<and> sorted_wrt (\<lambda>x y. snd y \<le> snd x) ys \<and>
      (\<forall>c. filter (\<lambda>kv. snd kv = c) ys = filter (\<lambda>kv. snd kv = c) ws)"
    using mset_sorted_reverse sorted_reverse_descending sorted_reverse_stable
      sorted_reverse_unique by blast
next
  assume r: "rankable s"
  show "snd (get_first_n_words s a) = None" by (simp add: get_first_n_words_ok[OF r])
next
  assume r: "rankable s"
  show "map (\<lambda>r. (emotion r, word r)) (fst (get_first_n_words s a)) =
        concat (map (\<lambda>item. if fst item \<in> set RELEVANT_EMOTIONS
                             then map (Pair (fst item))
                                    (take (nat (n_words a)) (map fst (sorted_reverse (snd item))))
                             else [])
                  (wd_emo s))"
    unfolding get_first_n_words_ok[OF r]
    apply (simp add: map_concat comp_def ranked_words)
    apply (simp only: sorted_words_def)
    done
qed

theorem ranking_is_deterministic_witness:
  "sorted_reverse ex_ties = [(''happy'', 5), (''glad'', 5), (''fun'', 3)] \<and>
   sorted_reverse [(''fun'', 3), (''glad'', 5), (''happy'', 5)]
     = [(''glad'', 5), (''happy'', 5), (''fun'', 3)] \<and>
   rankable ex_ties_state \<and>
   snd (get_first_n_words ex_ties_state ex_args) = None \<and>
   map (\<lambda>r. (emotion r, word r)) (fst (get_first_n_words ex_ties_state ex_args))
     = [(''joy'', ''happy''), (''joy'', ''glad'')]"
proof -
  have m: "mset [(''happy'', 5::int), (''glad'', 5), (''fun'', 3)] = mset ex_ties"
    by (simp add: ex_ties_def)
  have d: "sorted_wrt (\<lambda>x y. snd y \<le> snd x) [(''happy'', 5::int), (''glad'', 5), (''fun'', 3)]"
    by simp
  have f: "\<forall>c. filter (\<lambda>kv. snd kv = c) [(''happy'', 5::int), (''glad'', 5), (''fun'', 3)]
             = filter (\<lambda>kv. snd kv = c) ex_ties"
    by (simp add: ex_ties_def)
  have a1: "sorted_reverse ex_ties = [(''happy'', 5), (''glad'', 5), (''fun'', 3)]"
    using ranking_is_deterministic[of ex_ties "[(''happy'', 5), (''glad'', 5), (''fun'', 3)]"]
      m d f by blast
  have a2: "sorted_reverse [(''fun'', 3), (''glad'', 5), (''happy'', 5)]
     = [(''glad'', 5), (''happy'', 5), (''fun'', 3)]"
    using ranking_is_deterministic[of "[(''fun'', 3), (''glad'', 5), (''happy'', 5)]"
        "[(''glad'', 5), (''happy'', 5), (''fun'', 3)]"]
    by simp
  have r: "rankable ex_ties_state"
    by (simp add: rankable_def small_counts_def ex_ties_state_def ex_ties_def)
  have rel: "''joy'' \<in> set RELEVANT_EMOTIONS" by (simp add: RELEVANT_EMOTIONS_def)
  have n: "nat (n_words ex_args) = 2" by (simp add: ex_args_def)
  from ranking_is_deterministic[of ex_ties "[]" ex_ties_state ex_args] r
  have a3: "snd (get_first_n_words ex_ties_state ex_args) = None"
    and a4: "map (\<lambda>r. (emotion r, word r)) (fst (get_first_n_words ex_ties_state ex_args)) =
        concat (map (\<lambda>item. if fst item \<in> set RELEVANT_EMOTIONS
                             then map (Pair (fst item))
                                    (take (nat (n_words ex_args)) (map fst (sorted_reverse (snd item))))
                             else [])
                  (wd_emo ex_ties_state))"
    by blast+
  have a5: "map (\<lambda>r. (emotion r, word r)) (fst (get_first_n_words ex_ties_state ex_args))
     = [(''joy'', ''happy''), (''joy'', ''glad'')]"
    unfolding a4 n by (simp add: ex_ties_state_def rel a1 numeral_2_eq_2)
  from a1 a2 r a3 a5 show ?thesis by blast
qed

subsection \<open>C9: the totals the ranker divides by\<close>

lemma for_each_invariant:
  assumes "\<And>x s s'. P s \<Longrightarrow> body x s = Inr s' \<Longrightarrow> P s'"
    and "P s" and "for_each body xs s = Inr s'"
  shows "P s'"
  using assms(2,3)
proof (induction xs arbitrary: s)
  case Nil
  then show ?case by simp
next
  case (Cons x xs)
  from Cons.prems(2) obtain s1 where b: "body x s = Inr s1" and r: "for_each body xs s1 = Inr s'"
    by (cases "body x s") simp_all
  from assms(1)[OF Cons.prems(1) b] have "P s1" .
  then show ?case using r by (rule Cons.IH)
qed

lemma process_word_no_emotions:
  "getEmotionsOfWord lx w = [] \<Longrightarrow> process_word lx w s = Inr s"
  by (simp add: process_word_def)

lemma process_word_words_positive:
  assumes "emotion_keys s"
    and "0 \<le> wd_words s \<and> (no_words s \<or> 1 \<le> wd_words s)"
    and "process_word lx w s = Inr s'"
  shows "emotion_keys s' \<and> 0 \<le> wd_words s' \<and> (no_words s' \<or> 1 \<le> wd_words s')"
proof (cases "getEmotionsOfWord lx w = []")
  case True
  then have "s' = s" using assms(3) by (simp add: process_word_no_emotions)
  then show ?thesis using assms(1,2) by simp
next
  case False
  from process_word_effect[OF assms(1), of lx w] assms(3)
  have "emotion_keys s'" and "wd_words s' = wd_words s + 1"
    using False by auto
  then show ?thesis using assms(2) by simp
qed

lemma tokens_loop_words_positive:
  assumes "emotion_keys s"
    and "0 \<le> wd_words s \<and> (no_words s \<or> 1 \<le> wd_words s)"
    and "for_each (process_word lx) toks s = Inr s'"
  shows "emotion_keys s' \<and> 0 \<le> wd_words s' \<and> (no_words s' \<or> 1 \<le> wd_words s')"
proof -
  let ?P = "\<lambda>s. emotion_keys s \<and> 0 \<le> wd_words s \<and> (no_words s \<or> 1 \<le> wd_words s)"
  have step: "\<And>x s s'. ?P s \<Longrightarrow> process_word lx x s = Inr s' \<Longrightarrow> ?P s'"
    using process_word_words_positive by blast
  have "?P s" using assms(1,2) by simp
  from for_each_invariant[of ?P "process_word lx", OF step this assms(3)]
  show ?thesis .
qed

lemma process_tweet_counted:
  assumes "emotion_keys s \<and> counted s"
    and "users_file a = None \<or> valid_users \<noteq> None"
    and "process_tweet lx a valid_users t s = Inr s'"
  shows "emotion_keys s' \<and> counted s'"
proof (cases "passes a valid_users t")
  case False
  then have "skipped a valid_users t = Inr True" using skipped_passes[OF assms(2), of t] by simp
  then have "s' = s" using assms(3) by (simp add: process_tweet_skipped)
  then show ?thesis using assms(1) by simp
next
  case True
  then have p: "skipped a valid_users t = Inr False"
    using skipped_passes[OF assms(2), of t] by simp
  from assms(1) have k: "emotion_keys s" and c: "counted s" by simp_all
  from tokens_loop_effect[OF k, of lx "tokenize lx (full_text t)"]
  obtain s1 where s1: "for_each (process_word lx) (tokenize lx (full_text t)) s = Inr s1"
    and t1: "wd_tweets s1 = wd_tweets s"
    by blast
  have j: "0 \<le> wd_words s \<and> (no_words s \<or> 1 \<le> wd_words s)"
    using c by (auto simp: counted_def)
  from tokens_loop_words_positive[OF k j s1]
  have k1: "emotion_keys s1" and j1: "0 \<le> wd_words s1" "no_words s1 \<or> 1 \<le> wd_words s1"
    by simp_all
  define s2 where "s2 = s1\<lparr>wd_tweets := wd_tweets s1 + 1, st_tweets := st_tweets s1 + 1\<rparr>"
  have r: "s' = (if (st_tweets s2 - 1) mod NTWEET = 0 then s2\<lparr>dots := Suc (dots s2)\<rparr> else s2)"
    using assms(3) p s1 by (auto simp add: process_tweet_def Let_def s2_def)
  have e: "wd_emo s' = wd_emo s1" "wd_words s' = wd_words s1" "wd_tweets s' = wd_tweets s + 1"
    by (simp_all add: r s2_def t1)
  have "emotion_keys s'" using k1 e by (simp add: emotion_keys_def)
  moreover have "0 \<le> wd_tweets s" using c by (simp add: counted_def)
  then have "counted s'" using j1 e by (auto simp: counted_def no_words_def)
  ultimately show ?thesis by simp
qed

lemma tweets_loop_counted:
  assumes "emotion_keys s \<and> counted s"
    and "users_file a = None \<or> valid_users \<noteq> None"
    and "for_each (process_tweet lx a valid_users) ts s = Inr s'"
  shows "emotion_keys s' \<and> counted s'"
proof -
  let ?P = "\<lambda>s. emotion_keys s \<and> counted s"
  have step: "\<And>x s s'. ?P s \<Longrightarrow> process_tweet lx a valid_users x s = Inr s' \<Longrightarrow> ?P s'"
    using process_tweet_counted[OF _ assms(2)] by blast
  from for_each_invariant[of ?P "process_tweet lx a valid_users", OF step assms(1,3)]
  show ?thesis .
qed

lemma process_lines_unfold:
  "process_lines ev a (first # rest) s =
     (if users_file a \<noteq> None \<and> \<not> truthy (loaded_users ev a) then
        Inr (None, (snd (load_users ev a (s\<lparr>consumed := consumed s + 1\<rparr>)))
               \<lparr>logged := logged (snd (load_users ev a (s\<lparr>consumed := consumed s + 1\<rparr>))) @
                  [''The file of valid users could not be found\<newline>'']\<rparr>)
      else
        (case initEmotionLexicon ev (lang first) of
           None \<Rightarrow> Inr (None, snd (load_users ev a (s\<lparr>consumed := consumed s + 1\<rparr>)))
         | Some lx \<Rightarrow>
             (case for_each (process_tweet lx a (loaded_users ev a)) (first # rest)
                     (snd (load_users ev a (s\<lparr>consumed := consumed s + 1\<rparr>))) of
                Inl e \<Rightarrow> Inl e
              | Inr s2 \<Rightarrow> Inr (Some (lang first), s2\<lparr>consumed := consumed s2 + length rest\<rparr>))))"
proof -
  define s0 where "s0 = s\<lparr>consumed := consumed s + 1\<rparr>"
  have lu: "load_users ev a s0 = (loaded_users ev a, snd (load_users ev a s0))"
    using load_users_fst[of ev a s0] by (simp add: prod_eq_iff)
  show ?thesis
    apply (simp only: process_lines_def list.case)
    apply (fold s0_def)
    apply (subst lu)
    apply (simp only: Let_def prod.case)
    done
qed

lemma process_lines_counted:
  assumes "emotion_keys s \<and> counted s"
    and "process_lines ev a dump s = Inr (l, s')"
  shows "emotion_keys s' \<and> counted s'"
proof (cases dump)
  case Nil
  then show ?thesis using assms(2) by (simp add: process_lines_def)
next
  case (Cons first rest)
  define s1 where "s1 = snd (load_users ev a (s\<lparr>consumed := consumed s + 1\<rparr>))"
  have f1: "wd_emo s1 = wd_emo s" "wd_words s1 = wd_words s" "wd_tweets s1 = wd_tweets s"
    by (simp_all add: s1_def load_users_snd)
  have c1: "emotion_keys s1 \<and> counted s1"
    using assms(1) by (simp add: emotion_keys_def counted_def no_words_def f1)
  note u = process_lines_unfold[of ev a first rest s, folded s1_def]
  have pl: "process_lines ev a (first # rest) s = Inr (l, s')" using assms(2) Cons by simp
  show ?thesis
  proof (cases "users_file a \<noteq> None \<and> \<not> truthy (loaded_users ev a)")
    case True
    have "process_lines ev a (first # rest) s = Inr (None, s1\<lparr>logged := logged s1 @
                  [''The file of valid users could not be found\<newline>'']\<rparr>)"
      using True by (simp add: u)
    then have "s' = s1\<lparr>logged := logged s1 @
                  [''The file of valid users could not be found\<newline>'']\<rparr>"
      using pl by simp
    then show ?thesis using c1 by (simp add: emotion_keys_def counted_def no_words_def)
  next
    case False
    then have nn: "users_file a = None \<or> loaded_users ev a \<noteq> None"
      using truthy_not_None by blast
    show ?thesis
    proof (cases "initEmotionLexicon ev (lang first)")
      case None
      have "process_lines ev a (first # rest) s = Inr (None, s1)"
        by (simp only: u False if_False None option.case)
      then have "s' = s1" using pl by simp
      then show ?thesis using c1 by simp
    next
      case (Some lx)
      have q: "process_lines ev a (first # rest) s =
        (case for_each (process_tweet lx a (loaded_users ev a)) (first # rest) s1 of
                Inl e \<Rightarrow> Inl e
              | Inr s2 \<Rightarrow> Inr (Some (lang first), s2\<lparr>consumed := consumed s2 + length rest\<rparr>))"
        by (simp only: u False if_False Some option.case)
      from tweets_loop_effect[OF conjunct1[OF c1] nn, of lx "first # rest"]
      obtain s2 where r: "for_each (process_tweet lx a (loaded_users ev a)) (first # rest) s1 = Inr s2"
        by blast
      have "process_lines ev a (first # rest) s =
              Inr (Some (lang first), s2\<lparr>consumed := consumed s2 + length rest\<rparr>)"
        by (simp only: q r sum.case)
      then have e: "s' = s2\<lparr>consumed := consumed s2 + length rest\<rparr>" using pl by simp
      from tweets_loop_counted[OF c1 nn r] have "emotion_keys s2 \<and> counted s2" .
      then show ?thesis using e by (simp add: emotion_keys_def counted_def no_words_def)
    qed
  qed
qed

lemma process_lines_raises_only_on_empty_dump:
  assumes "emotion_keys s" and "process_lines ev a dump s = Inl e"
  shows "dump = [] \<and> e = StopIteration"
proof (cases dump)
  case Nil
  then show ?thesis using assms(2) by (simp add: process_lines_def)
next
  case (Cons first rest)
  define s1 where "s1 = snd (load_users ev a (s\<lparr>consumed := consumed s + 1\<rparr>))"
  have k1: "emotion_keys s1"
    using assms(1) by (simp add: emotion_keys_def s1_def load_users_snd)
  note u = process_lines_unfold[of ev a first rest s, folded s1_def]
  have pl: "process_lines ev a (first # rest) s = Inl e" using assms(2) Cons by simp
  have False
  proof (cases "users_file a \<noteq> None \<and> \<not> truthy (loaded_users ev a)")
    case True
    have "process_lines ev a (first # rest) s = Inr (None, s1\<lparr>logged := logged s1 @
                  [''The file of valid users could not be found\<newline>'']\<rparr>)"
      using True by (simp add: u)
    then show False using pl by simp
  next
    case False
    then have nn: "users_file a = None \<or> loaded_users ev a \<noteq> None"
      using truthy_not_None by blast
    show False
    proof (cases "initEmotionLexicon ev (lang first)")
      case None
      have "process_lines ev a (first # rest) s = Inr (None, s1)"
        by (simp only: u False if_False None option.case)
      then show False using pl by simp
    next
      case (Some lx)
      have q: "process_lines ev a (first # rest) s =
        (case for_each (process_tweet lx a (loaded_users ev a)) (first # rest) s1 of
                Inl e \<Rightarrow> Inl e
              | Inr s2 \<Rightarrow> Inr (Some (lang first), s2\<lparr>consumed := consumed s2 + length rest\<rparr>))"
        by (simp only: u False if_False Some option.case)
      from tweets_loop_effect[OF k1 nn, of lx "first # rest"]
      obtain s2 where r: "for_each (process_tweet lx a (loaded_users ev a)) (first # rest) s1 = Inr s2"
        by blast
      have "process_lines ev a (first # rest) s =
              Inr (Some (lang first), s2\<lparr>consumed := consumed s2 + length rest\<rparr>)"
        by (simp only: q r sum.case)
      then show False using pl by simp
    qed
  qed
  then show ?thesis ..
qed

lemma counted_init: "emotion_keys (init_words_dict initial_state) \<and> counted (init_words_dict initial_state)"
  using ex_keys no_words_init
  by (simp add: counted_def) (simp add: init_words_dict_def initial_state_def)

lemma counted_rankable: "counted s \<Longrightarrow> small_counts s \<Longrightarrow> rankable s"
  by (auto simp: counted_def rankable_def)

lemma yield_until_raise_error:
  "snd (yield_until_raise xs) = Some e \<Longrightarrow> Inl e \<in> set xs"
  by (induction xs rule: yield_until_raise.induct) (auto split: prod.splits)

lemma emotion_rows_Inl:
  assumes "Inl e \<in> set (emotion_rows s n item)"
  shows "\<exists>w \<in> fst ` set (snd item). make_row s (fst item) (snd item) w = Inl e"
proof -
  have rel: "fst item \<in> set RELEVANT_EMOTIONS"
    using assms by (cases "fst item \<in> set RELEVANT_EMOTIONS") (simp_all add: emotion_rows_def)
  then obtain k where "Inl e \<in> set (map (make_row s (fst item) (snd item))
                                        (take k (sorted_words (snd item))))"
    using assms by (auto simp: emotion_rows_def Let_def)
  then obtain w where w: "w \<in> set (take k (sorted_words (snd item)))"
    and m: "make_row s (fst item) (snd item) w = Inl e"
    by auto
  from w have "w \<in> fst ` set (snd item)"
    using set_take_subset[of k "sorted_words (snd item)"] set_sorted_words[of "snd item"]
    by blast
  with m show ?thesis by blast
qed

text \<open>With non-zero totals the only exception a row can raise is the one of a count too large.\<close>

lemma make_row_Inl:
  assumes "make_row s emo ws w = Inl e" and "w \<in> fst ` set ws"
    and "wd_words s \<noteq> 0" and "wd_tweets s \<noteq> 0"
  shows "e = OverflowError"
proof -
  from map_of_keys[OF assms(2)] obtain c where c: "map_of ws w = Some c" by blast
  show ?thesis
  proof (cases "py_truediv c (wd_words s)")
    case (Inl e1)
    then have "e = e1" using assms(1) c by (simp add: make_row_def)
    then show ?thesis using py_truediv_Inl[OF Inl] assms(3) by simp
  next
    case per_word: (Inr v1)
    show ?thesis
    proof (cases "py_truediv c (wd_tweets s)")
      case (Inl e2)
      then have "e = e2" using assms(1) c per_word by (simp add: make_row_def)
      then show ?thesis using py_truediv_Inl[OF Inl] assms(4) by simp
    next
      case (Inr v2)
      then show ?thesis using assms(1) c per_word by (simp add: make_row_def)
    qed
  qed
qed

lemma get_first_n_words_error:
  assumes "counted s"
  shows "snd (get_first_n_words s a) = None \<or> snd (get_first_n_words s a) = Some OverflowError"
proof (cases "no_words s")
  case True
  then show ?thesis by (simp add: get_first_n_words_no_words)
next
  case False
  with assms have nz: "wd_words s \<noteq> 0" "wd_tweets s \<noteq> 0" by (auto simp: counted_def)
  show ?thesis
  proof (cases "snd (get_first_n_words s a)")
    case None
    then show ?thesis by simp
  next
    case (Some e)
    then have "Inl e \<in> set (concat (map (emotion_rows s (n_words a)) (wd_emo s)))"
      unfolding get_first_n_words_def by (rule yield_until_raise_error)
    then obtain item where "Inl e \<in> set (emotion_rows s (n_words a) item)" by auto
    from emotion_rows_Inl[OF this] obtain w where "w \<in> fst ` set (snd item)"
      and "make_row s (fst item) (snd item) w = Inl e"
      by blast
    from make_row_Inl[OF this(2,1) nz] Some show ?thesis by simp
  qed
qed

text \<open>
  Claim C9.  No run of \<^verbatim>\<open>main\<close> ends in a division by zero.  Whenever \<^verbatim>\<open>process_lines\<close>,
  started on the counters \<^verbatim>\<open>main\<close> sets up, returns, the ranker on the resulting counters
  does not raise \<^verbatim>\<open>ZeroDivisionError\<close> (it finishes without any exception while the counts
  are below \<open>2 ^ 1023\<close>), and if any word is recorded, or any row is yielded, then
  \<^verbatim>\<open>words_dict['words']\<close> and \<^verbatim>\<open>words_dict['tweets']\<close> are both at least 1.
\<close>

theorem ranker_never_divides_by_zero:
  "raised (main ev dump basename a) \<noteq> Some ZeroDivisionError \<and>
   (\<forall>l s'. process_lines ev a dump (init_words_dict initial_state) = Inr (l, s') \<longrightarrow>
      snd (get_first_n_words s' a) \<noteq> Some ZeroDivisionError \<and>
      (small_counts s' \<longrightarrow> snd (get_first_n_words s' a) = None) \<and>
      (\<not> no_words s' \<longrightarrow> 1 \<le> wd_words s' \<and> 1 \<le> wd_tweets s') \<and>
      (fst (get_first_n_words s' a) \<noteq> [] \<longrightarrow> 1 \<le> wd_words s' \<and> 1 \<le> wd_tweets s'))"
proof -
  let ?s0 = "init_words_dict initial_state"
  have B: "snd (get_first_n_words s' a) \<noteq> Some ZeroDivisionError \<and>
      (small_counts s' \<longrightarrow> snd (get_first_n_words s' a) = None) \<and>
      (\<not> no_words s' \<longrightarrow> 1 \<le> wd_words s' \<and> 1 \<le> wd_tweets s') \<and>
      (fst (get_first_n_words s' a) \<noteq> [] \<longrightarrow> 1 \<le> wd_words s' \<and> 1 \<le> wd_tweets s')"
    if p: "process_lines ev a dump ?s0 = Inr (l, s')" for l s'
  proof -
    from process_lines_counted[OF counted_init p] have c: "counted s'" by simp
    have 0: "snd (get_first_n_words s' a) \<noteq> Some ZeroDivisionError"
      using get_first_n_words_error[OF c, of a] by auto
    have 1: "small_counts s' \<longrightarrow> snd (get_first_n_words s' a) = None"
    proof
      assume "small_counts s'"
      from get_first_n_words_ok[OF counted_rankable[OF c this], of a]
      show "snd (get_first_n_words s' a) = None" by simp
    qed
    have 2: "\<not> no_words s' \<longrightarrow> 1 \<le> wd_words s' \<and> 1 \<le> wd_tweets s'"
      using c by (auto simp: counted_def)
    have 3: "fst (get_first_n_words s' a) \<noteq> [] \<longrightarrow> \<not> no_words s'"
      using get_first_n_words_no_words[of s' a] by auto
    from 0 1 2 3 show ?thesis by blast
  qed
  have A: "raised (main ev dump basename a) \<noteq> Some ZeroDivisionError"
  proof (cases "n_words a \<le> 0")
    case True
    then show ?thesis by (simp add: main_def)
  next
    case False
    show ?thesis
    proof (cases "process_lines ev a dump ?s0")
      case (Inl e)
      from process_lines_raises_only_on_empty_dump[OF conjunct1[OF counted_init] Inl]
      have "e = StopIteration" by simp
      then show ?thesis using False Inl by (simp add: main_def Let_def)
    next
      case (Inr res)
      obtain l s' where res: "res = (l, s')" by (cases res)
      from B[OF Inr[unfolded res]]
      have g: "snd (get_first_n_words s' a) \<noteq> Some ZeroDivisionError" by simp
      show ?thesis
      proof (cases "snd (get_first_n_words s' a)")
        case None
        then show ?thesis using False Inr res by (simp add: main_def Let_def)
      next
        case (Some e)
        then have "e \<noteq> ZeroDivisionError" using g by simp
        then show ?thesis using False Inr res Some by (simp add: main_def Let_def)
      qed
    qed
  qed
  from A B show ?thesis by blast
qed

lemma ex_run:
  "process_lines (ex_env False ([], None) ([], None)) ex_args ex_dump
     (init_words_dict initial_state) =
   Inr (Some ''en'',
      \<lparr>wd_emo =
         [(''positive'', [(''happy'', 2)]), (''negative'', [(''grim'', 3)]),
          (''anger'', []), (''anticipation'', []), (''disgust'', []),
          (''fear'', []), (''joy'', [(''happy'', 2)]),
          (''sadness'', [(''grim'', 3)]), (''surprise'', []),
          (''trust'', [(''happy'', 2)])],
         wd_words = 6, wd_tweets = 3, st_words = 6, st_tweets = 3,
         logged = [], dots = 1, consumed = 3\<rparr>)"
  by (simp add: process_lines_def load_users_def ex_args_def ex_dump_def ex_tweet_def ex_env_def
      ex_lexicon_def process_tweet_def skipped_def process_word_def count_emotion_def
      init_words_dict_def initial_state_def RELEVANT_EMOTIONS_def NTWEET_def Let_def)

theorem ranker_never_divides_by_zero_witness:
  "raised (main (ex_env False ([], None) ([], None)) ex_dump ex_basename ex_args)
     \<noteq> Some ZeroDivisionError \<and>
   (\<exists>l s'. process_lines (ex_env False ([], None) ([], None)) ex_args ex_dump
              (init_words_dict initial_state) = Inr (l, s') \<and>
           \<not> no_words s' \<and> fst (get_first_n_words s' ex_args) \<noteq> [] \<and>
           snd (get_first_n_words s' ex_args) = None \<and>
           1 \<le> wd_words s' \<and> 1 \<le> wd_tweets s')"
proof -
  let ?ev = "ex_env False ([], None) ([], None)"
  obtain s' where p: "process_lines ?ev ex_args ex_dump (init_words_dict initial_state)
      = Inr (Some ''en'', s')"
    and e: "wd_emo s' =
         [(''positive'', [(''happy'', 2)]), (''negative'', [(''grim'', 3)]),
          (''anger'', []), (''anticipation'', []), (''disgust'', []),
          (''fear'', []), (''joy'', [(''happy'', 2)]),
          (''sadness'', [(''grim'', 3)]), (''surprise'', []),
          (''trust'', [(''happy'', 2)])]"
    using ex_run by simp
  have nw: "\<not> no_words s'" by (simp add: no_words_def e)
  note t = ranker_never_divides_by_zero[of ?ev ex_dump ex_basename ex_args]
  from t have a: "raised (main ?ev ex_dump ex_basename ex_args) \<noteq> Some ZeroDivisionError"
    by (rule conjunct1)
  have sm: "small_counts s'" by (simp add: small_counts_def e)
  from t p have b0: "small_counts s' \<longrightarrow> snd (get_first_n_words s' ex_args) = None"
    and c: "\<not> no_words s' \<longrightarrow> 1 \<le> wd_words s' \<and> 1 \<le> wd_tweets s'"
    by blast+
  from b0 sm have b: "snd (get_first_n_words s' ex_args) = None" by simp
  from c nw have d: "1 \<le> wd_words s'" "1 \<le> wd_tweets s'" by simp_all
  then have "rankable s'" using sm by (simp add: rankable_def)
  from get_first_n_words_ok[OF this, of ex_args]
  have "fst (get_first_n_words s' ex_args) = concat (map (ranked s' (n_words ex_args)) (wd_emo s'))"
    by simp
  then have r: "fst (get_first_n_words s' ex_args) \<noteq> []"
    by (simp add: e ranked_def RELEVANT_EMOTIONS_def sorted_words_def sorted_reverse_def ex_args_def)
  from a p nw r b d show ?thesis by blast
qed

end
